theory Spec2Isabelle
  imports Complex_Main "HOL-Library.Char_ord" "HOL-Library.List_Lexorder"
begin

section \<open>Python values\<close>

text \<open>
  The scripts handle three kinds of data: text (identifiers, header values, the lines of
  the \<^verbatim>\<open>.env\<close> file), decoded JSON documents, and the flat dictionaries appended to
  \<^verbatim>\<open>rows\<close>. Text is a \<^typ>\<open>string\<close> with one \<^typ>\<open>char\<close> per code point, so
  the model covers text whose code points are below 256 (this is exact for HTTP header
  values, which the HTTP library decodes as ISO-8859-1). A dictionary is an association
  list in insertion order; a lookup takes the first binding of a key.
\<close>

datatype pyfloat = Finite rat | PosInf | NegInf | NaN

datatype json =
    JNull
  | JBool bool
  | JInt int
  | JFloat pyfloat
  | JStr string
  | JArr "json list"
  | JObj "(string \<times> json) list"

type_synonym row = "(string \<times> json) list"

datatype exn =
    RequestError string
  | HTTPError int
  | JSONDecodeError
  | AttributeError
  | TypeError
  | KeyError
  | ValueError
  | ZeroDivisionError

text \<open>Sequencing of computations that may raise: the first exception wins.\<close>

definition and_then :: "exn + 'a \<Rightarrow> ('a \<Rightarrow> exn + 'b) \<Rightarrow> exn + 'b" where
  "and_then m f = (case m of Inl e \<Rightarrow> Inl e | Inr x \<Rightarrow> f x)"

text \<open>Python truth value of a decoded JSON value (\<^verbatim>\<open>bool(x)\<close>).\<close>

fun truthy :: "json \<Rightarrow> bool" where
  "truthy JNull = False"
| "truthy (JBool b) = b"
| "truthy (JInt i) = (i \<noteq> 0)"
| "truthy (JFloat f) = (f \<noteq> Finite 0)"
| "truthy (JStr s) = (s \<noteq> [])"
| "truthy (JArr xs) = (xs \<noteq> [])"
| "truthy (JObj kv) = (kv \<noteq> [])"

text \<open>\<^verbatim>\<open>a or b\<close> on values that are already evaluated.\<close>

definition py_or :: "json \<Rightarrow> json \<Rightarrow> json" where
  "py_or a b = (if truthy a then a else b)"

text \<open>\<^verbatim>\<open>d.get(k, default)\<close> on a dictionary.\<close>

definition dict_get :: "(string \<times> json) list \<Rightarrow> string \<Rightarrow> json \<Rightarrow> json" where
  "dict_get kv k dflt = (case map_of kv k of None \<Rightarrow> dflt | Some v \<Rightarrow> v)"

text \<open>
  \<^verbatim>\<open>x.get(k, default)\<close> on an arbitrary decoded value: only a dictionary has the
  method, every other value raises \<^verbatim>\<open>AttributeError\<close>.
\<close>

fun py_get_default :: "json \<Rightarrow> string \<Rightarrow> json \<Rightarrow> exn + json" where
  "py_get_default (JObj kv) k dflt = Inr (dict_get kv k dflt)"
| "py_get_default _ k dflt = Inl AttributeError"

definition py_get :: "json \<Rightarrow> string \<Rightarrow> exn + json" where
  "py_get x k = py_get_default x k JNull"

text \<open>
  \<^verbatim>\<open>str(x)\<close>: the identity on text. The rendering of every other value is the
  interpreter's business and is taken as the parameter \<open>repr\<close>.
\<close>

fun py_str :: "(json \<Rightarrow> string) \<Rightarrow> json \<Rightarrow> string" where
  "py_str repr (JStr s) = s"
| "py_str repr v = repr v"

text \<open>
  \<^verbatim>\<open>sep.join(items)\<close>: every item must be text, otherwise \<^verbatim>\<open>TypeError\<close>.
\<close>

fun as_strings :: "json list \<Rightarrow> exn + string list" where
  "as_strings [] = Inr []"
| "as_strings (JStr s # xs) = and_then (as_strings xs) (\<lambda>ss. Inr (s # ss))"
| "as_strings (_ # xs) = Inl TypeError"

fun join_with :: "string \<Rightarrow> string list \<Rightarrow> string" where
  "join_with sep [] = []"
| "join_with sep [s] = s"
| "join_with sep (s # t # ss) = s @ sep @ join_with sep (t # ss)"

definition py_join :: "string \<Rightarrow> json list \<Rightarrow> exn + string" where
  "py_join sep items = and_then (as_strings items) (\<lambda>ss. Inr (join_with sep ss))"

text \<open>
  \<^verbatim>\<open>str.isspace\<close> for one character below 256, and \<^verbatim>\<open>s.strip()\<close>.
\<close>

definition is_space :: "char \<Rightarrow> bool" where
  "is_space c = (let n = (of_char c :: nat) in
     (9 \<le> n \<and> n \<le> 13) \<or> (28 \<le> n \<and> n \<le> 32) \<or> n = 133 \<or> n = 160)"

definition strip :: "string \<Rightarrow> string" where
  "strip s = rev (dropWhile is_space (rev (dropWhile is_space s)))"

text \<open>
  \<^verbatim>\<open>x[0]\<close> on a truthy decoded value: the first element of a list, the first
  character of a text, \<^verbatim>\<open>KeyError\<close> on a dictionary (its keys are texts, never
  \<^verbatim>\<open>0\<close>), \<^verbatim>\<open>TypeError\<close> on a number or a boolean.
\<close>

fun py_first :: "json \<Rightarrow> exn + json" where
  "py_first (JArr (x # xs)) = Inr x"
| "py_first (JStr (c # cs)) = Inr (JStr [c])"
| "py_first (JObj kv) = Inl KeyError"
| "py_first _ = Inl TypeError"

text \<open>
  \<^verbatim>\<open>x[:9]\<close>: a prefix of a text or of a list; any other value cannot be sliced.
\<close>

fun slice9 :: "json \<Rightarrow> exn + json" where
  "slice9 (JStr s) = Inr (JStr (take 9 s))"
| "slice9 (JArr xs) = Inr (JArr (take 9 xs))"
| "slice9 _ = Inl TypeError"

section \<open>Field extraction (\<^verbatim>\<open>enrich_sirets_insee_progress.py\<close> and \<^verbatim>\<open>_v2.py\<close>)\<close>

text \<open>
  \<^verbatim>\<open>extract_fields\<close> of the progress variant; the function of the v2 variant has the
  same text. The statements are evaluated in the order of the source, so the exception
  raised is the one the source raises first.
\<close>

definition extract_fields :: "(json \<Rightarrow> string) \<Rightarrow> json \<Rightarrow> exn + row" where
  "extract_fields repr payload =
     and_then (py_get payload ''etablissement'') (\<lambda>e0.
     let etab = py_or e0 payload in
     and_then (py_get_default etab ''uniteLegale'' (JObj [])) (\<lambda>unite.
     and_then (py_get_default etab ''adresseEtablissement'' (JObj [])) (\<lambda>a0.
     let adr = py_or a0 (JObj []) in
     and_then (py_get adr ''numeroVoieEtablissement'') (\<lambda>n0.
     let numero = py_or n0 (JStr '''') in
     and_then (py_get adr ''typeVoieEtablissement'') (\<lambda>t0.
     let type_voie = py_or t0 (JStr '''') in
     and_then (py_get adr ''libelleVoieEtablissement'') (\<lambda>l0.
     let lib_voie = py_or l0 (JStr '''') in
     and_then (py_get adr ''complementAdresseEtablissement'') (\<lambda>c0.
     let comp = py_or c0 (JStr '''') in
     and_then (py_join '' ''
        (filter truthy [JStr (py_str repr numero), type_voie, lib_voie, comp])) (\<lambda>joined.
     let adresse_l1 = py_or (JStr (strip joined)) JNull in
     and_then (py_get adr ''codePostalEtablissement'') (\<lambda>code_postal.
     and_then (py_get adr ''libelleCommuneEtablissement'') (\<lambda>commune.
     and_then (py_get etab ''periodesEtablissement'') (\<lambda>p0.
     let periodes = py_or p0 (JArr []) in
     and_then (if truthy periodes then py_first periodes else Inr (JObj [])) (\<lambda>periode.
     and_then (py_get periode ''activitePrincipaleEtablissement'') (\<lambda>pn.
     and_then (py_get etab ''activitePrincipaleEtablissement'') (\<lambda>en.
     let naf = py_or pn en in
     and_then (py_get periode ''nomenclatureActivitePrincipaleEtablissement'') (\<lambda>ln.
     let lib_naf = py_or ln (JStr '''') in
     and_then (py_get etab ''siret'') (\<lambda>siret.
     and_then (slice9 (py_or siret (JStr ''''))) (\<lambda>siren.
     and_then (py_get unite ''denominationUniteLegale'') (\<lambda>den.
     and_then (py_get unite ''nomUniteLegale'') (\<lambda>nom.
     and_then (py_get periode ''etatAdministratifEtablissement'') (\<lambda>pe.
     and_then (py_get etab ''etatAdministratifEtablissement'') (\<lambda>ee.
     and_then (py_get unite ''dateCreationUniteLegale'') (\<lambda>date_creation.
     and_then (py_get unite ''trancheEffectifsUniteLegale'') (\<lambda>ut.
     and_then (py_get etab ''trancheEffectifsEtablissement'') (\<lambda>et.
     Inr [(''siret'', siret),
          (''siren'', siren),
          (''denomination'', py_or den nom),
          (''etat_etablissement'', py_or pe ee),
          (''date_creation'', date_creation),
          (''tranche_effectifs'', py_or ut et),
          (''naf'', naf),
          (''libelle_naf'', lib_naf),
          (''adresse_ligne_1'', adresse_l1),
          (''code_postal'', code_postal),
          (''commune'', commune)]))))))))))))))))))))))))"


section \<open>Loading and normalising the identifiers\<close>

text \<open>
  \<^verbatim>\<open>df["siret"].astype(str).str.replace(r"\D+", "", regex=True)\<close> followed by
  \<^verbatim>\<open>.dropna().unique()\<close>. The model starts from the cells of the \<^verbatim>\<open>siret\<close>
  column as \<^verbatim>\<open>read_csv(dtype=str)\<close> delivers them: a text, or \<open>None\<close> for a missing
  cell, which \<^verbatim>\<open>astype(str)\<close> turns into the text \<^verbatim>\<open>nan\<close>. After that every cell
  is a text, so \<^verbatim>\<open>dropna\<close> removes nothing. For code points below 256 the regular
  expression class \<^verbatim>\<open>\d\<close> is the ten ASCII digits.
\<close>

definition is_digit :: "char \<Rightarrow> bool" where
  "is_digit c = (CHR ''0'' \<le> c \<and> c \<le> CHR ''9'')"

definition astype_str :: "string option \<Rightarrow> string" where
  "astype_str c = (case c of None \<Rightarrow> ''nan'' | Some s \<Rightarrow> s)"

definition normalize :: "string option \<Rightarrow> string" where
  "normalize c = filter is_digit (astype_str c)"

text \<open>
  \<^verbatim>\<open>Series.unique()\<close>: the values in order of first appearance. \<open>seen\<close> holds the
  values met so far.
\<close>

fun unique_from :: "'a list \<Rightarrow> 'a list \<Rightarrow> 'a list" where
  "unique_from seen [] = []"
| "unique_from seen (x # xs) =
     (if x \<in> set seen then unique_from seen xs else x # unique_from (x # seen) xs)"

definition unique :: "'a list \<Rightarrow> 'a list" where
  "unique xs = unique_from [] xs"

text \<open>The normalised, deduplicated column, shared by all variants.\<close>

definition normalized_column :: "string option list \<Rightarrow> string list" where
  "normalized_column cells = unique (map normalize cells)"

text \<open>
  Progress and v2 variants:
  \<^verbatim>\<open>sirets = [s for s in df["siret"].dropna().unique() if len(s) == 14]\<close>.
\<close>

definition load_sirets :: "string option list \<Rightarrow> string list" where
  "load_sirets cells = filter (\<lambda>s. length s = 14) (normalized_column cells)"

section \<open>The \<^verbatim>\<open>.env\<close> file and the credentials\<close>

text \<open>
  \<^verbatim>\<open>str.splitlines\<close> for code points below 256. Every line is stripped and empty
  lines are skipped by the caller, so a \<^verbatim>\<open>\r\n\<close> pair may be cut twice.
\<close>

definition is_linebreak :: "char \<Rightarrow> bool" where
  "is_linebreak c = (let n = (of_char c :: nat) in
     (10 \<le> n \<and> n \<le> 13) \<or> (28 \<le> n \<and> n \<le> 30) \<or> n = 133)"

fun split_when :: "(char \<Rightarrow> bool) \<Rightarrow> string \<Rightarrow> string \<Rightarrow> string list" where
  "split_when p cur [] = [rev cur]"
| "split_when p cur (c # cs) =
     (if p c then rev cur # split_when p [] cs else split_when p (c # cur) cs)"

definition splitlines :: "string \<Rightarrow> string list" where
  "splitlines s = split_when is_linebreak [] s"

text \<open>\<^verbatim>\<open>s.strip(chars)\<close> with an explicit character set.\<close>

definition strip_chars :: "string \<Rightarrow> string \<Rightarrow> string" where
  "strip_chars cs s =
     rev (dropWhile (\<lambda>c. c \<in> set cs) (rev (dropWhile (\<lambda>c. c \<in> set cs) s)))"

text \<open>
  One iteration of the loop of \<^verbatim>\<open>read_env_file\<close>: blank lines, comments and lines
  without \<^verbatim>\<open>=\<close> are skipped; otherwise the line is cut at its first \<^verbatim>\<open>=\<close> and the
  value loses surrounding double quotes, then surrounding single quotes.
\<close>

definition env_line :: "(string \<rightharpoonup> string) \<Rightarrow> string \<Rightarrow> (string \<rightharpoonup> string)" where
  "env_line d raw =
     (let line = strip raw in
      if line = [] \<or> take 1 line = ''#'' \<or> CHR ''='' \<notin> set line then d
      else
        let k = takeWhile (\<lambda>c. c \<noteq> CHR ''='') line;
            v = drop 1 (dropWhile (\<lambda>c. c \<noteq> CHR ''='') line)
        in d(strip k \<mapsto> strip_chars [CHR 0x27] (strip_chars [CHR 0x22] (strip v))))"

text \<open>
  \<^verbatim>\<open>read_env_file\<close>: \<open>None\<close> stands for a file that does not exist or cannot be
  read; both yield the empty dictionary.
\<close>

definition read_env_file :: "string option \<Rightarrow> (string \<rightharpoonup> string)" where
  "read_env_file content =
     (case content of None \<Rightarrow> Map.empty
      | Some text \<Rightarrow> foldl env_line Map.empty (splitlines text))"

text \<open>
  \<^verbatim>\<open>a or b\<close> on optional texts: \<open>None\<close> and the empty text are false.
\<close>

definition given :: "string option \<Rightarrow> bool" where
  "given a = (case a of None \<Rightarrow> False | Some s \<Rightarrow> s \<noteq> [])"

definition or_else :: "string option \<Rightarrow> string option \<Rightarrow> string option" where
  "or_else a b = (if given a then a else b)"


definition text_of :: "string option \<Rightarrow> string" where
  "text_of a = (case a of None \<Rightarrow> [] | Some s \<Rightarrow> s)"

section \<open>The outside world\<close>

text \<open>
  An HTTP exchange either raises (a network-level exception of the HTTP library) or
  returns a response, of which the scripts read the status code, the
  \<^verbatim>\<open>Retry-After\<close> header and the body decoded by \<^verbatim>\<open>r.json()\<close> (\<open>None\<close> when the body
  is not JSON, which makes \<^verbatim>\<open>r.json()\<close> raise).
\<close>

record response =
  status_code :: int
  retry_after :: "string option"
  body :: "json option"

datatype reply = Raises exn | Returns response

text \<open>
  Everything a run reads from outside: the cells of the \<^verbatim>\<open>siret\<close> column of the
  input file, the process environment, the text of the \<^verbatim>\<open>.env\<close> file, the reply to
  the n-th lookup request and to the n-th token request (counted from 0 over the whole
  run), and the interpreter's rendering of exceptions and values as text.
\<close>

record world =
  siret_column :: "string option list"
  getenv :: "string \<Rightarrow> string option"
  dotenv :: "string option"
  http_get :: "nat \<Rightarrow> reply"
  token_post :: "nat \<Rightarrow> reply"
  exn_str :: "exn \<Rightarrow> string"
  py_repr :: "json \<Rightarrow> string"

text \<open>The command line flags of the three variants that are modelled.\<close>

record args =
  output_file :: string
  sleep :: rat
  max_retries :: int
  retry_backoff :: rat
  every :: int
  verbose :: bool
  checkpoint_rows :: int
  api_key :: "string option"
  api_version :: string
  client_id :: "string option"
  client_secret :: "string option"
  oauth_base :: string

text \<open>
  What a run does to the outside is recorded as a trace of events, in order. Log lines are
  kept as structured messages rather than formatted text. A file write carries the path
  and the table written; the encoding of the table as delimited text or as a spreadsheet
  is the library's.
\<close>

datatype mode = ApiKeyMode string | OAuth2Mode

datatype message =
    NoValidSiret
  | MissingCredentials
  | AuthFailure int
  | ModeLine mode nat
  | Verbose nat nat string "exn option"
  | Progress nat nat nat nat
  | CheckpointWritten string nat
  | Summary nat nat nat string string
  | Finished string

datatype event =
    Log message
  | TokenRequest string string
  | Get string "(string \<times> string) list"
  | Sleep rat
  | WriteCheckpoint string "string list" "json list list"
  | WriteExcel string "row list"

record state =
  trace :: "event list"
  gets :: nat
  tokens :: nat
  rows :: "row list"
  ok :: nat
  ko :: nat

definition initial :: state where
  "initial = \<lparr>trace = [], gets = 0, tokens = 0, rows = [], ok = 0, ko = 0\<rparr>"

definition emit :: "event \<Rightarrow> state \<Rightarrow> state" where
  "emit e st = st\<lparr>trace := trace st @ [e]\<rparr>"

text \<open>
  How a run ends: it falls off the end of \<^verbatim>\<open>main\<close>, calls \<^verbatim>\<open>sys.exit(n)\<close>, or
  dies of an exception nobody catches, which the interpreter reports with exit status 1.
\<close>

datatype ending = Completed | SysExit int | Uncaught exn

fun exit_status :: "ending \<Rightarrow> int" where
  "exit_status Completed = 0"
| "exit_status (SysExit n) = n"
| "exit_status (Uncaught e) = 1"

text \<open>\<^verbatim>\<open>time.sleep(d)\<close> raises \<^verbatim>\<open>ValueError\<close> on a negative duration.\<close>

definition py_sleep :: "rat \<Rightarrow> state \<Rightarrow> exn + state" where
  "py_sleep d st = (if d < 0 then Inl ValueError else Inr (emit (Sleep d) st))"

text \<open>
  \<^verbatim>\<open>r.raise_for_status()\<close> raises for the client and server error classes only, and
  \<^verbatim>\<open>r.json()\<close> raises when the body does not decode.
\<close>

definition raise_for_status :: "response \<Rightarrow> exn + unit" where
  "raise_for_status r =
     (if 400 \<le> status_code r \<and> status_code r < 600 then Inl (HTTPError (status_code r))
      else Inr ())"

definition response_json :: "response \<Rightarrow> exn + json" where
  "response_json r = (case body r of None \<Rightarrow> Inl JSONDecodeError | Some js \<Rightarrow> Inr js)"

section \<open>Token acquisition\<close>

text \<open>
  \<^verbatim>\<open>get_token\<close> (the same text in the progress, v2 and \<^verbatim>\<open>_1\<close> variants): one POST
  to the token endpoint, \<^verbatim>\<open>raise_for_status\<close>, then
  \<^verbatim>\<open>r.json().get("access_token")\<close>. The request is counted and traced whether or not
  it succeeds.
\<close>

definition get_token :: "world \<Rightarrow> string \<Rightarrow> string \<Rightarrow> state \<Rightarrow> (exn + json) \<times> state" where
  "get_token w cid csec st =
     ((case token_post w (tokens st) of
         Raises e \<Rightarrow> Inl e
       | Returns r \<Rightarrow>
           and_then (raise_for_status r) (\<lambda>_.
           and_then (response_json r) (\<lambda>js. py_get js ''access_token''))),
      emit (TokenRequest cid csec) (st\<lparr>tokens := tokens st + 1\<rparr>))"

section \<open>Paths\<close>

text \<open>
  \<^verbatim>\<open>Path(p).with_suffix(suffix)\<close> for POSIX paths: the path is cut at \<^verbatim>\<open>/\<close>, empty
  and \<^verbatim>\<open>.\<close> components are dropped, and the suffix of the last component (from its last
  dot, unless that dot is its first or last character) is replaced. A path without a last
  component raises \<^verbatim>\<open>ValueError\<close>.
\<close>

definition path_parts :: "string \<Rightarrow> string list" where
  "path_parts p = filter (\<lambda>c. c \<noteq> [] \<and> c \<noteq> ''.'') (split_when (\<lambda>c. c = CHR ''/'') [] p)"

definition path_root :: "string \<Rightarrow> string" where
  "path_root p =
     (if take 1 p \<noteq> ''/'' then []
      else if take 2 p = ''//'' \<and> take 3 p \<noteq> ''///'' then ''//'' else ''/'')"

definition path_suffix :: "string \<Rightarrow> string" where
  "path_suffix name =
     (let after = takeWhile (\<lambda>c. c \<noteq> CHR ''.'') (rev name) in
      if CHR ''.'' \<in> set name \<and> after \<noteq> [] \<and> length after + 1 < length name
      then CHR ''.'' # rev after else [])"

definition with_suffix :: "string \<Rightarrow> string \<Rightarrow> exn + string" where
  "with_suffix p suffix =
     (let parts = path_parts p in
      if parts = [] then Inl ValueError
      else
        let name = last parts;
            stem = take (length name - length (path_suffix name)) name
        in Inr (path_root p @ join_with ''/'' (butlast parts @ [stem @ suffix])))"

section \<open>The progress variant (\<^verbatim>\<open>enrich_sirets_insee_progress.py\<close>)\<close>

subsection \<open>The pause after HTTP 429\<close>

text \<open>
  \<^verbatim>\<open>pause = float(ra) if ra and ra.isdigit() else args.retry_backoff\<close>. For a
  character below 256, \<^verbatim>\<open>str.isdigit\<close> accepts the ASCII digits and the superscripts
  one, two and three; \<^verbatim>\<open>float\<close> accepts only the former and raises \<^verbatim>\<open>ValueError\<close>
  on the latter. The conversion of a digit text to a float is modelled as exact.
\<close>

definition isdigit_char :: "char \<Rightarrow> bool" where
  "isdigit_char c = (is_digit c \<or> (of_char c :: nat) \<in> {178, 179, 185})"

definition digits_value :: "string \<Rightarrow> nat" where
  "digits_value s = foldl (\<lambda>n c. 10 * n + (of_char c - 48)) 0 s"

definition retry_pause :: "rat \<Rightarrow> string option \<Rightarrow> exn + rat" where
  "retry_pause backoff ra =
     (case ra of
        None \<Rightarrow> Inr backoff
      | Some s \<Rightarrow>
          if s \<noteq> [] \<and> list_all isdigit_char s then
            (if list_all is_digit s then Inr (of_nat (digits_value s)) else Inl ValueError)
          else Inr backoff)"

subsection \<open>One attempt and the retry loop\<close>

text \<open>
  The body of the \<^verbatim>\<open>try\<close> block of one attempt: the request, the 429 branch that
  ends in \<^verbatim>\<open>continue\<close>, and otherwise \<^verbatim>\<open>raise_for_status\<close>, decoding, extraction and
  the append that ends in \<^verbatim>\<open>break\<close>. An exception leaves the block with the state as
  it was when it was raised.
\<close>

datatype step = Retry429 | Break

definition try_block ::
  "args \<Rightarrow> world \<Rightarrow> string \<Rightarrow> (string \<times> string) list \<Rightarrow> state \<Rightarrow> (exn + step) \<times> state" where
  "try_block a w url hdrs st =
     (let st1 = emit (Get url hdrs) (st\<lparr>gets := gets st + 1\<rparr>) in
      case http_get w (gets st) of
        Raises e \<Rightarrow> (Inl e, st1)
      | Returns r \<Rightarrow>
          if status_code r = 429 then
            (case retry_pause (retry_backoff a) (retry_after r) of
               Inl e \<Rightarrow> (Inl e, st1)
             | Inr pause \<Rightarrow>
                 (case py_sleep pause st1 of
                    Inl e \<Rightarrow> (Inl e, st1)
                  | Inr st2 \<Rightarrow> (Inr Retry429, st2)))
          else
            (case and_then (raise_for_status r) (\<lambda>_.
                  and_then (response_json r) (\<lambda>js. extract_fields (py_repr w) js)) of
               Inl e \<Rightarrow> (Inl e, st1)
             | Inr extracted \<Rightarrow> (Inr Break, st1\<lparr>rows := rows st1 @ [extracted], ok := ok st1 + 1\<rparr>)))"

text \<open>
  \<^verbatim>\<open>while attempt <= args.max_retries\<close>. The result is \<open>Inr last_err\<close> when the loop
  is left normally, and \<open>Inl e\<close> when the \<^verbatim>\<open>time.sleep\<close> of the exception handler
  itself raises, which nothing catches.
\<close>

function retry_loop ::
  "args \<Rightarrow> world \<Rightarrow> string \<Rightarrow> (string \<times> string) list \<Rightarrow> int \<Rightarrow> exn option \<Rightarrow> state
     \<Rightarrow> (exn + exn option) \<times> state" where
  "retry_loop a w url hdrs attempt last_err st =
     (if attempt \<le> max_retries a then
        (case try_block a w url hdrs st of
           (Inr Retry429, st1) \<Rightarrow> retry_loop a w url hdrs (attempt + 1) last_err st1
         | (Inr Break, st1) \<Rightarrow> (Inr None, st1)
         | (Inl e, st1) \<Rightarrow>
             (case py_sleep (retry_backoff a) st1 of
                Inl e2 \<Rightarrow> (Inl e2, st1)
              | Inr st2 \<Rightarrow> retry_loop a w url hdrs (attempt + 1) (Some e) st2))
      else (Inr last_err, st))"
  by pat_completeness auto
termination
  by (relation "measure (\<lambda>(a, w, url, hdrs, attempt, last_err, st). nat (max_retries a + 1 - attempt))")
     auto

declare retry_loop.simps [simp del]

subsection \<open>After the lookup: failure record, logs, checkpoint, pause\<close>

definition failure_row :: "string \<Rightarrow> string \<Rightarrow> row" where
  "failure_row s msg = [(''siret'', JStr s), (''erreur'', JStr msg)]"

text \<open>
  \<^verbatim>\<open>write_checkpoint_csv\<close>: a \<^verbatim>\<open>csv.DictWriter\<close> writes the header and one line per
  row, with the empty text for a column the row lacks; it raises \<^verbatim>\<open>ValueError\<close> on a
  row that has a key outside \<open>fieldnames\<close>.
\<close>

definition write_checkpoint_csv :: "row list \<Rightarrow> string \<Rightarrow> string list \<Rightarrow> exn + event" where
  "write_checkpoint_csv rs path fieldnames =
     (if \<forall>r \<in> set rs. \<forall>k \<in> set (map fst r). k \<in> set fieldnames
      then Inr (WriteCheckpoint path fieldnames
                  (map (\<lambda>r. map (\<lambda>k. dict_get r k (JStr [])) fieldnames) rs))
      else Inl ValueError)"

text \<open>
  \<^verbatim>\<open>fieldnames = sorted({k for row in rows for k in row.keys()})\<close>
\<close>

definition fieldnames_of :: "row list \<Rightarrow> string list" where
  "fieldnames_of rs = sort (remdups (concat (map (map fst) rs)))"

definition checkpoint_step :: "args \<Rightarrow> string \<Rightarrow> nat \<Rightarrow> nat \<Rightarrow> state \<Rightarrow> exn + state" where
  "checkpoint_step a ckpt tot i st =
     (if checkpoint_rows a > 0 \<and> (int i mod checkpoint_rows a = 0 \<or> i = tot) then
        and_then (write_checkpoint_csv (rows st) ckpt (fieldnames_of (rows st))) (\<lambda>ev.
          Inr (emit (Log (CheckpointWritten ckpt (length (rows st)))) (emit ev st)))
      else Inr st)"

text \<open>
  The rest of the body of the \<^verbatim>\<open>for\<close> loop, after the \<^verbatim>\<open>while\<close> loop. The
  remainder \<^verbatim>\<open>i % args.every\<close> raises \<^verbatim>\<open>ZeroDivisionError\<close> when the flag is 0.
\<close>

definition after_lookup ::
  "args \<Rightarrow> world \<Rightarrow> string \<Rightarrow> nat \<Rightarrow> nat \<Rightarrow> string \<Rightarrow> exn option \<Rightarrow> state \<Rightarrow> exn option \<times> state" where
  "after_lookup a w ckpt tot i s last_err st =
     (let st1 = (case last_err of
                   None \<Rightarrow> st
                 | Some e \<Rightarrow> st\<lparr>rows := rows st @ [failure_row s (exn_str w e)], ko := ko st + 1\<rparr>);
          st2 = (if verbose a then emit (Log (Verbose i tot s last_err)) st1 else st1)
      in if every a = 0 then (Some ZeroDivisionError, st2)
         else
           let st3 = (if int i mod every a = 0
                      then emit (Log (Progress i tot (ok st2) (ko st2))) st2 else st2)
           in case checkpoint_step a ckpt tot i st3 of
                Inl e \<Rightarrow> (Some e, st3)
              | Inr st4 \<Rightarrow>
                  (case py_sleep (sleep a) st4 of
                     Inl e \<Rightarrow> (Some e, st4)
                   | Inr st5 \<Rightarrow> (None, st5)))"

text \<open>
  \<^verbatim>\<open>for i, s in enumerate(sirets, start=1)\<close>. The result is the exception that ended
  the loop, if any.
\<close>

fun siret_loop ::
  "args \<Rightarrow> world \<Rightarrow> (string \<Rightarrow> string) \<Rightarrow> (string \<times> string) list \<Rightarrow> string \<Rightarrow> nat \<Rightarrow> nat
     \<Rightarrow> string list \<Rightarrow> state \<Rightarrow> exn option \<times> state" where
  "siret_loop a w build_url hdrs ckpt tot i [] st = (None, st)"
| "siret_loop a w build_url hdrs ckpt tot i (s # ss) st =
     (case retry_loop a w (build_url s) hdrs 0 None st of
        (Inl e, st1) \<Rightarrow> (Some e, st1)
      | (Inr last_err, st1) \<Rightarrow>
          (case after_lookup a w ckpt tot i s last_err st1 of
             (Some e, st2) \<Rightarrow> (Some e, st2)
           | (None, st2) \<Rightarrow> siret_loop a w build_url hdrs ckpt tot (i + 1) ss st2))"

subsection \<open>\<^verbatim>\<open>main\<close>\<close>

definition rstrip_slash :: "string \<Rightarrow> string" where
  "rstrip_slash s = rev (dropWhile (\<lambda>c. c = CHR ''/'') (rev s))"

definition apikey_url :: "string \<Rightarrow> string \<Rightarrow> string" where
  "apikey_url ver s = ''https://api.insee.fr/api-sirene/'' @ ver @ ''/siret/'' @ s"

definition oauth_url :: "string \<Rightarrow> string \<Rightarrow> string" where
  "oauth_url base s = rstrip_slash base @ ''/siret/'' @ s"

definition apikey_headers :: "string \<Rightarrow> (string \<times> string) list" where
  "apikey_headers key = [(''X-INSEE-Api-Key-Integration'', key), (''Accept'', ''application/json'')]"

definition oauth_headers :: "string \<Rightarrow> (string \<times> string) list" where
  "oauth_headers token = [(''Authorization'', ''Bearer '' @ token), (''Accept'', ''application/json'')]"

text \<open>
  From the mode line to the end of \<^verbatim>\<open>main\<close>: the checkpoint path, the loop, the
  spreadsheet and the summary.
\<close>

definition run_progress ::
  "args \<Rightarrow> world \<Rightarrow> mode \<Rightarrow> (string \<Rightarrow> string) \<Rightarrow> (string \<times> string) list \<Rightarrow> string list \<Rightarrow> state
     \<Rightarrow> ending \<times> state" where
  "run_progress a w m build_url hdrs sirets st =
     (let tot = length sirets;
          st1 = emit (Log (ModeLine m tot)) st
      in case with_suffix (output_file a) ''.checkpoint.csv'' of
           Inl e \<Rightarrow> (Uncaught e, st1)
         | Inr ckpt \<Rightarrow>
             (case siret_loop a w build_url hdrs ckpt tot 1 sirets st1 of
                (Some e, st2) \<Rightarrow> (Uncaught e, st2)
              | (None, st2) \<Rightarrow>
                  (Completed,
                   emit (Log (Summary tot (ok st2) (ko st2) (output_file a) ckpt))
                     (emit (WriteExcel (output_file a) (rows st2)) st2))))"

text \<open>
  \<^verbatim>\<open>main\<close>: the identifiers are loaded first, and a run without a valid identifier
  stops there; then the credentials are resolved, the API key before the client pair.
\<close>

definition main_progress :: "args \<Rightarrow> world \<Rightarrow> ending \<times> state" where
  "main_progress a w =
     (let sirets = load_sirets (siret_column w) in
      if length sirets = 0 then (SysExit 0, emit (Log NoValidSiret) initial)
      else
        let env = read_env_file (dotenv w);
            key = or_else (or_else (api_key a) (getenv w ''INSEE_API_KEY'')) (env ''INSEE_API_KEY'')
        in if given key then
             run_progress a w (ApiKeyMode (api_version a)) (apikey_url (api_version a))
               (apikey_headers (text_of key)) sirets initial
           else
             let cid = or_else (or_else (client_id a) (getenv w ''INSEE_CLIENT_ID''))
                         (env ''INSEE_CLIENT_ID'');
                 csec = or_else (or_else (client_secret a) (getenv w ''INSEE_CLIENT_SECRET''))
                          (env ''INSEE_CLIENT_SECRET'')
             in if \<not> given cid \<or> \<not> given csec
                then (SysExit 1, emit (Log MissingCredentials) initial)
                else
                  (case get_token w (text_of cid) (text_of csec) initial of
                     (Inl e, st1) \<Rightarrow> (Uncaught e, st1)
                   | (Inr token, st1) \<Rightarrow>
                       run_progress a w OAuth2Mode (oauth_url (oauth_base a))
                         (oauth_headers (py_str (py_repr w) token)) sirets st1))"

section \<open>Vocabulary of the statements\<close>

text \<open>The two key sets a record of the result list can have.\<close>

definition success_keys :: "string list" where
  "success_keys = [''siret'', ''siren'', ''denomination'', ''etat_etablissement'', ''date_creation'',
     ''tranche_effectifs'', ''naf'', ''libelle_naf'', ''adresse_ligne_1'', ''code_postal'', ''commune'']"

definition failure_keys :: "string list" where
  "failure_keys = [''siret'', ''erreur'']"

definition classified :: "row \<Rightarrow> bool" where
  "classified r = (map fst r = success_keys \<or> map fst r = failure_keys)"

text \<open>
  A concrete run used to instantiate the statements: the default flags with an API key on
  the command line, an input column that holds one identifier three times (twice
  verbatim, once with spaces), a second identifier and a malformed value, and a registry
  that answers the first request with HTTP 429 and \<^verbatim>\<open>Retry-After: 2\<close>, the second with
  a document, and all later ones with HTTP 500.
\<close>

definition example_args :: args where
  "example_args =
     \<lparr>output_file = ''./enrichi_insee.xlsx'', sleep = 1 / 10, max_retries = 2,
      retry_backoff = 4 / 5, every = 10, verbose = False, checkpoint_rows = 50,
      api_key = Some ''KEY'', api_version = ''3.11'', client_id = None, client_secret = None,
      oauth_base = ''https://api.insee.fr/entreprises/sirene/V3''\<rparr>"

definition example_payload :: json where
  "example_payload =
     JObj [(''etablissement'',
            JObj [(''siret'', JStr ''12345678901234''),
                  (''uniteLegale'', JObj [(''denominationUniteLegale'', JStr ''ACME'')])])]"

definition example_reply :: "nat \<Rightarrow> reply" where
  "example_reply n =
     (if n = 0 then Returns \<lparr>status_code = 429, retry_after = Some ''2'', body = None\<rparr>
      else if n = 1 then Returns \<lparr>status_code = 200, retry_after = None, body = Some example_payload\<rparr>
      else Returns \<lparr>status_code = 500, retry_after = None, body = None\<rparr>)"

definition no_text :: "'a \<Rightarrow> string" where
  "no_text x = []"

definition example_world :: world where
  "example_world =
     \<lparr>siret_column = [Some ''12345678901234'', Some ''12345678901234'', Some ''1234 5678 901234'',
                      Some ''98765432109876'', Some ''123''],
      getenv = (\<lambda>k. None), dotenv = None,
      http_get = example_reply,
      token_post = (\<lambda>n. Raises (RequestError [])),
      exn_str = no_text, py_repr = no_text\<rparr>"

text \<open>
  "Duplicates removed, the first occurrence kept, in input order", said directly: the
  elements at the positions that do not repeat an earlier element.
\<close>

definition first_occurrences :: "'a list \<Rightarrow> 'a list" where
  "first_occurrences xs =
     map (\<lambda>i. xs ! i) (filter (\<lambda>i. xs ! i \<notin> set (take i xs)) [0..<length xs])"

text \<open>
  A second concrete run: the same flags, an input that holds one identifier twice
  verbatim and once with interior spaces, and a registry that answers with a document.
\<close>

definition dedup_world :: world where
  "dedup_world =
     \<lparr>siret_column = [Some ''12345678901234'', Some ''12345678901234'', Some ''1234 5678 901234''],
      getenv = (\<lambda>k. None), dotenv = None,
      http_get = (\<lambda>n. Returns \<lparr>status_code = 200, retry_after = None,
                               body = Some example_payload\<rparr>),
      token_post = (\<lambda>n. Raises (RequestError [])),
      exn_str = no_text, py_repr = no_text\<rparr>"

text \<open>
  The table a checkpoint holds for a list of records and a list of columns, and the test
  whether an event writes the checkpoint file.
\<close>

definition csv_table :: "string list \<Rightarrow> row list \<Rightarrow> json list list" where
  "csv_table columns rs = map (\<lambda>r. map (\<lambda>k. dict_get r k (JStr [])) columns) rs"

fun is_checkpoint :: "event \<Rightarrow> bool" where
  "is_checkpoint (WriteCheckpoint path columns table) = True"
| "is_checkpoint _ = False"

definition no_checkpoint_args :: args where
  "no_checkpoint_args = example_args\<lparr>checkpoint_rows := 0\<rparr>"

text \<open>
  The events one lookup may produce: requests for its own URL with its own headers, and
  pauses. And the test that an event, if it writes a checkpoint, writes it to a given path.
\<close>

fun lookup_event :: "string \<Rightarrow> (string \<times> string) list \<Rightarrow> event \<Rightarrow> bool" where
  "lookup_event url hdrs (Get u h) = (u = url \<and> h = hdrs)"
| "lookup_event url hdrs (Sleep d) = True"
| "lookup_event url hdrs _ = False"

fun checkpoint_goes_to :: "string \<Rightarrow> event \<Rightarrow> bool" where
  "checkpoint_goes_to path (WriteCheckpoint p columns table) = (p = path)"
| "checkpoint_goes_to path _ = True"



text \<open>An input without any valid identifier.\<close>

definition no_valid_world :: world where
  "no_valid_world = example_world\<lparr>siret_column := [Some ''123'', None, Some ''abc'']\<rparr>"

text \<open>
  "Resolve in priority order: command line, then environment, then file": the first of
  the three that is given.
\<close>

definition resolve :: "string option \<Rightarrow> string option \<Rightarrow> string option \<Rightarrow> string option" where
  "resolve cli envv filev =
     (if given cli then cli else if given envv then envv else if given filev then filev else None)"

text \<open>
  An event that the lookups of one run may produce once the headers are fixed: a request
  carries these headers, and no token is requested.
\<close>

fun loop_event :: "(string \<times> string) list \<Rightarrow> event \<Rightarrow> bool" where
  "loop_event hdrs (Get u h) = (h = hdrs)"
| "loop_event hdrs (TokenRequest c s) = False"
| "loop_event hdrs _ = True"

text \<open>
  Runs for the credential statements: no credential on the command line; an
  \<^verbatim>\<open>.env\<close> file that holds only an API key; an \<^verbatim>\<open>.env\<close> file that holds a client
  pair, with a token endpoint that answers HTTP 401.
\<close>

definition no_credentials_args :: args where
  "no_credentials_args = example_args\<lparr>api_key := None\<rparr>"

definition dotenv_world :: world where
  "dotenv_world = example_world\<lparr>dotenv := Some ''INSEE_API_KEY=abc''\<rparr>"

text \<open>
  Vocabulary for the payloads of the registry: the entries of a dictionary, whether a key
  is present, the value under a key (null when absent), and the four places the
  extraction reads from: the establishment (nested under \<^verbatim>\<open>etablissement\<close> or the
  payload itself), its legal unit, its address and its first period (an empty dictionary
  each when absent).
\<close>

definition entries :: "json \<Rightarrow> (string \<times> json) list" where
  "entries v = (case v of JObj kv \<Rightarrow> kv | _ \<Rightarrow> [])"

definition has_key :: "json \<Rightarrow> string \<Rightarrow> bool" where
  "has_key v k = (k \<in> fst ` set (entries v))"

definition value_at :: "json \<Rightarrow> string \<Rightarrow> json" where
  "value_at v k = dict_get (entries v) k JNull"

definition is_dict :: "json \<Rightarrow> bool" where
  "is_dict v = (case v of JObj kv \<Rightarrow> True | _ \<Rightarrow> False)"

definition is_text :: "json \<Rightarrow> bool" where
  "is_text v = (case v of JStr s \<Rightarrow> True | _ \<Rightarrow> False)"

definition is_list :: "json \<Rightarrow> bool" where
  "is_list v = (case v of JArr xs \<Rightarrow> True | _ \<Rightarrow> False)"

definition etab_of :: "json \<Rightarrow> json" where
  "etab_of payload =
     (if truthy (value_at payload ''etablissement'') then value_at payload ''etablissement''
      else payload)"

definition unite_of :: "json \<Rightarrow> json" where
  "unite_of payload =
     (if has_key (etab_of payload) ''uniteLegale'' then value_at (etab_of payload) ''uniteLegale''
      else JObj [])"

definition adr_of :: "json \<Rightarrow> json" where
  "adr_of payload =
     (if truthy (value_at (etab_of payload) ''adresseEtablissement'')
      then value_at (etab_of payload) ''adresseEtablissement'' else JObj [])"

definition periode_of :: "json \<Rightarrow> json" where
  "periode_of payload =
     (case value_at (etab_of payload) ''periodesEtablissement'' of
        JArr (x # xs) \<Rightarrow> x
      | _ \<Rightarrow> JObj [])"

text \<open>
  A payload is well shaped when the payload, the establishment, the legal unit and the
  address are dictionaries, and the periods, when present and not empty, are a list whose
  first entry is a dictionary.
\<close>

definition well_shaped :: "json \<Rightarrow> bool" where
  "well_shaped payload =
     (is_dict payload \<and> is_dict (etab_of payload) \<and> is_dict (unite_of payload) \<and>
      is_dict (adr_of payload) \<and>
      (is_list (value_at (etab_of payload) ''periodesEtablissement'') \<or>
       \<not> truthy (value_at (etab_of payload) ''periodesEtablissement'')) \<and>
      is_dict (periode_of payload))"

text \<open>
  The values the extraction joins into the address line must be texts when they are not
  empty, and the identifier it cuts the siren from must be a text or a list.
\<close>

definition joinable :: "json \<Rightarrow> bool" where
  "joinable v = (is_text v \<or> \<not> truthy v)"

definition sliceable :: "json \<Rightarrow> bool" where
  "sliceable v = (is_text v \<or> is_list v \<or> \<not> truthy v)"

definition acme_payload :: "string \<Rightarrow> json" where
  "acme_payload x =
     JObj [(''etablissement'',
            JObj [(''siret'', JStr x),
                  (''uniteLegale'', JObj [(''denominationUniteLegale'', JStr ''ACME'')])])]"

section \<open>Shape of the result list\<close>

lemma and_then_Inr: "and_then m f = Inr y \<longleftrightarrow> (\<exists>x. m = Inr x \<and> f x = Inr y)"
  by (cases m) (simp_all add: and_then_def)

lemma extract_fields_keys: "extract_fields rp p = Inr r \<Longrightarrow> map fst r = success_keys"
  unfolding extract_fields_def Let_def and_then_Inr success_keys_def
  by auto

lemma rows_emit [simp]: "rows (emit e st) = rows st"
  by (simp add: emit_def)

lemma py_sleep_rows: "py_sleep d st = Inr st' \<Longrightarrow> rows st' = rows st"
  by (auto simp: py_sleep_def split: if_splits)

lemma try_block_rows:
  assumes "try_block a w url hdrs st = (res, st')"
  shows "(res = Inr Break \<longrightarrow> (\<exists>r. rows st' = rows st @ [r] \<and> map fst r = success_keys))
       \<and> (res \<noteq> Inr Break \<longrightarrow> rows st' = rows st)"
  using assms
  by (auto simp: try_block_def Let_def and_then_Inr
           split: reply.splits if_splits sum.splits dest: py_sleep_rows extract_fields_keys)

lemma retry_loop_rows:
  "retry_loop a w url hdrs k le st = (res, st') \<Longrightarrow>
     rows st' = rows st \<or> (\<exists>r. rows st' = rows st @ [r] \<and> map fst r = success_keys \<and> res = Inr None)"
proof (induction a w url hdrs k le st rule: retry_loop.induct)
  case (1 a w url hdrs attempt last_err st)
  show ?case
  proof (cases "attempt \<le> max_retries a")
    case False
    with "1.prems" show ?thesis by (simp add: retry_loop.simps)
  next
    case True
    obtain r1 st1 where tb: "try_block a w url hdrs st = (r1, st1)" by (cases "try_block a w url hdrs st")
    note tr = try_block_rows[OF tb]
    show ?thesis
    proof (cases r1)
      case (Inl e)
      with tr have eq: "rows st1 = rows st" by simp
      show ?thesis
      proof (cases "py_sleep (retry_backoff a) st1")
        case (Inl e2)
        with "1.prems" True tb \<open>r1 = Inl e\<close> eq show ?thesis by (simp add: retry_loop.simps)
      next
        case (Inr st2)
        from "1.prems" True tb \<open>r1 = Inl e\<close> Inr
        have "retry_loop a w url hdrs (attempt + 1) (Some e) st2 = (res, st')"
          by (simp add: retry_loop.simps)
        from "1.IH"(1)[OF True tb[symmetric] \<open>r1 = Inl e\<close> Inr this] py_sleep_rows[OF Inr] eq
        show ?thesis by simp
      qed
    next
      case (Inr s)
      show ?thesis
      proof (cases s)
        case Retry429
        with Inr tr have eq: "rows st1 = rows st" by simp
        from "1.prems" True tb Inr Retry429
        have "retry_loop a w url hdrs (attempt + 1) last_err st1 = (res, st')"
          by (simp add: retry_loop.simps)
        from "1.IH"(2)[OF True tb[symmetric] Inr Retry429 this] eq
        show ?thesis by simp
      next
        case Break
        with "1.prems" True tb Inr tr show ?thesis by (auto simp add: retry_loop.simps)
      qed
    qed
  qed
qed


lemma write_checkpoint_csv_ok:
  "write_checkpoint_csv rs path (fieldnames_of rs) =
     Inr (WriteCheckpoint path (fieldnames_of rs)
            (map (\<lambda>r. map (\<lambda>k. dict_get r k (JStr [])) (fieldnames_of rs)) rs))"
  by (auto simp: write_checkpoint_csv_def fieldnames_of_def)

lemma checkpoint_step_rows: "checkpoint_step a ckpt tot i st = Inr st' \<Longrightarrow> rows st' = rows st"
  by (auto simp: checkpoint_step_def and_then_Inr split: if_splits)

lemma after_lookup_rows:
  "after_lookup a w ckpt tot i s le st = (res, st') \<Longrightarrow>
     rows st' = rows st @ (case le of None \<Rightarrow> [] | Some e \<Rightarrow> [failure_row s (exn_str w e)])"
  by (auto simp: after_lookup_def Let_def split: if_splits sum.splits option.splits
           dest!: checkpoint_step_rows py_sleep_rows)

lemma classified_failure_row [simp]: "classified (failure_row s m)"
  by (simp add: classified_def failure_row_def failure_keys_def)

lemma body_rows:
  assumes "retry_loop a w url hdrs 0 None st = (Inr le, st1)"
      and "after_lookup a w ckpt tot i s le st1 = (res, st2)"
  shows "\<exists>new. rows st2 = rows st @ new \<and> list_all classified new \<and> length new \<le> 1"
  using retry_loop_rows[OF assms(1)] after_lookup_rows[OF assms(2)]
  by (cases le) (auto simp: classified_def failure_row_def failure_keys_def)

lemma siret_loop_rows:
  "siret_loop a w b h ckpt tot i ss st = (res, st') \<Longrightarrow>
     \<exists>new. rows st' = rows st @ new \<and> list_all classified new \<and> length new \<le> length ss"
proof (induction ss arbitrary: i st)
  case Nil
  then show ?case by simp
next
  case (Cons s ss)
  obtain r1 st1 where rl: "retry_loop a w (b s) h 0 None st = (r1, st1)"
    by (cases "retry_loop a w (b s) h 0 None st")
  show ?case
  proof (cases r1)
    case (Inl e)
    with Cons.prems rl retry_loop_rows[OF rl] show ?thesis by auto
  next
    case (Inr le)
    obtain r2 st2 where al: "after_lookup a w ckpt tot i s le st1 = (r2, st2)"
      by (cases "after_lookup a w ckpt tot i s le st1")
    from body_rows[OF rl[unfolded Inr] al] obtain new1 where
      n1: "rows st2 = rows st @ new1" "list_all classified new1" "length new1 \<le> 1" by blast
    show ?thesis
    proof (cases r2)
      case (Some e)
      with Cons.prems rl Inr al n1 show ?thesis by auto
    next
      case None
      with Cons.prems rl Inr al have "siret_loop a w b h ckpt tot (i + 1) ss st2 = (res, st')" by simp
      from Cons.IH[OF this] obtain new2 where
        "rows st' = rows st2 @ new2" "list_all classified new2" "length new2 \<le> length ss" by blast
      with n1 show ?thesis by (intro exI[of _ "new1 @ new2"]) auto
    qed
  qed
qed

lemma run_progress_rows:
  "run_progress a w m b h sirets st = (res, st') \<Longrightarrow>
     \<exists>new. rows st' = rows st @ new \<and> list_all classified new \<and> length new \<le> length sirets"
  by (auto simp: run_progress_def Let_def split: sum.splits prod.splits option.splits
           dest!: siret_loop_rows)

lemma get_token_rows: "get_token w c s st = (res, st') \<Longrightarrow> rows st' = rows st"
  by (auto simp: get_token_def)

lemma main_progress_rows:
  "main_progress a w = (res, st) \<Longrightarrow>
     list_all classified (rows st) \<and> length (rows st) \<le> length (load_sirets (siret_column w))"
  by (auto simp: main_progress_def Let_def initial_def emit_def
           split: if_splits sum.splits prod.splits
           dest!: run_progress_rows get_token_rows)

section \<open>Traces of the loops\<close>

lemma trace_emit [simp]: "trace (emit e st) = trace st @ [e]"
  by (simp add: emit_def)

lemma tokens_emit [simp]: "tokens (emit e st) = tokens st"
  by (simp add: emit_def)

lemma py_sleep_cases:
  "py_sleep d st = Inr st' \<Longrightarrow>
     trace st' = trace st @ [Sleep d] \<and> rows st' = rows st \<and> gets st' = gets st \<and>
     tokens st' = tokens st \<and> 0 \<le> d"
  by (auto simp: py_sleep_def emit_def split: if_splits)

lemma try_block_trace:
  assumes "try_block a w url hdrs st = (res, st')"
  shows "\<exists>evs. trace st' = trace st @ Get url hdrs # evs \<and> list_all (lookup_event url hdrs) evs \<and>
               tokens st' = tokens st"
  using assms
  by (auto simp: try_block_def Let_def emit_def
           split: reply.splits if_splits sum.splits dest!: py_sleep_cases)

lemma retry_loop_trace:
  "retry_loop a w url hdrs k le st = (res, st') \<Longrightarrow>
     \<exists>evs. trace st' = trace st @ evs \<and> list_all (lookup_event url hdrs) evs \<and>
           tokens st' = tokens st \<and>
           (k \<le> max_retries a \<longrightarrow> Get url hdrs \<in> set evs)"
proof (induction a w url hdrs k le st rule: retry_loop.induct)
  case (1 a w url hdrs attempt last_err st)
  show ?case
  proof (cases "attempt \<le> max_retries a")
    case False
    with "1.prems" show ?thesis by (simp add: retry_loop.simps)
  next
    case True
    obtain r1 st1 where tb: "try_block a w url hdrs st = (r1, st1)"
      by (cases "try_block a w url hdrs st")
    from try_block_trace[OF tb] obtain e1 where
      e1: "trace st1 = trace st @ Get url hdrs # e1" "list_all (lookup_event url hdrs) e1"
          "tokens st1 = tokens st" by blast
    show ?thesis
    proof (cases r1)
      case (Inl e)
      show ?thesis
      proof (cases "py_sleep (retry_backoff a) st1")
        case (Inl e2)
        with "1.prems" True tb \<open>r1 = Inl e\<close> e1 show ?thesis
          by (auto simp add: retry_loop.simps)
      next
        case (Inr st2)
        from "1.prems" True tb \<open>r1 = Inl e\<close> Inr
        have "retry_loop a w url hdrs (attempt + 1) (Some e) st2 = (res, st')"
          by (simp add: retry_loop.simps)
        from "1.IH"(1)[OF True tb[symmetric] \<open>r1 = Inl e\<close> Inr this] obtain e2 where
          e2: "trace st' = trace st2 @ e2" "list_all (lookup_event url hdrs) e2"
              "tokens st' = tokens st2" by blast
        from py_sleep_cases[OF Inr] e1 e2
        have "trace st' = trace st @ (Get url hdrs # e1 @ Sleep (retry_backoff a) # e2)"
          "list_all (lookup_event url hdrs) (Get url hdrs # e1 @ Sleep (retry_backoff a) # e2)"
          "tokens st' = tokens st"
          by simp_all
        then show ?thesis by (intro exI[of _ "Get url hdrs # e1 @ Sleep (retry_backoff a) # e2"]) simp
      qed
    next
      case (Inr s)
      show ?thesis
      proof (cases s)
        case Retry429
        from "1.prems" True tb Inr Retry429
        have "retry_loop a w url hdrs (attempt + 1) last_err st1 = (res, st')"
          by (simp add: retry_loop.simps)
        from "1.IH"(2)[OF True tb[symmetric] Inr Retry429 this] obtain e2 where
          e2: "trace st' = trace st1 @ e2" "list_all (lookup_event url hdrs) e2"
              "tokens st' = tokens st1" by blast
        with e1 show ?thesis by (intro exI[of _ "Get url hdrs # e1 @ e2"]) simp
      next
        case Break
        with "1.prems" True tb Inr e1 show ?thesis
          by (intro exI[of _ "Get url hdrs # e1"]) (simp add: retry_loop.simps)
      qed
    qed
  qed
qed

lemma lookup_event_not_checkpoint: "lookup_event url hdrs e \<Longrightarrow> \<not> is_checkpoint e"
  by (cases e) simp_all

lemma lookup_events_no_checkpoint:
  "list_all (lookup_event url hdrs) evs \<Longrightarrow> filter is_checkpoint evs = []"
  by (induction evs) (auto dest: lookup_event_not_checkpoint)

lemma main_progress_Completed:
  assumes "main_progress a w = (Completed, st)"
  shows "\<exists>m b h st0 ckpt st2.
           load_sirets (siret_column w) \<noteq> [] \<and>
           with_suffix (output_file a) ''.checkpoint.csv'' = Inr ckpt \<and>
           (st0 = initial \<or> (\<exists>cid csec tok. get_token w cid csec initial = (Inr tok, st0))) \<and>
           ((m = ApiKeyMode (api_version a) \<and> b = apikey_url (api_version a)) \<or>
            (m = OAuth2Mode \<and> b = oauth_url (oauth_base a))) \<and>
           siret_loop a w b h ckpt (length (load_sirets (siret_column w))) 1
               (load_sirets (siret_column w))
               (emit (Log (ModeLine m (length (load_sirets (siret_column w))))) st0) = (None, st2) \<and>
           st = emit (Log (Summary (length (load_sirets (siret_column w))) (ok st2) (ko st2)
                        (output_file a) ckpt))
                  (emit (WriteExcel (output_file a) (rows st2)) st2)"
proof -
  let ?ss = "load_sirets (siret_column w)"
  have run: "\<And>m b h st0. run_progress a w m b h ?ss st0 = (Completed, st) \<Longrightarrow>
     \<exists>ckpt st2. with_suffix (output_file a) ''.checkpoint.csv'' = Inr ckpt \<and>
        siret_loop a w b h ckpt (length ?ss) 1 ?ss (emit (Log (ModeLine m (length ?ss))) st0) = (None, st2) \<and>
        st = emit (Log (Summary (length ?ss) (ok st2) (ko st2) (output_file a) ckpt))
                  (emit (WriteExcel (output_file a) (rows st2)) st2)"
    by (auto simp: run_progress_def Let_def split: sum.splits prod.splits option.splits)
  from assms have ne: "?ss \<noteq> []"
    by (auto simp: main_progress_def Let_def split: if_splits)
  from assms ne consider
      (key) h where "run_progress a w (ApiKeyMode (api_version a)) (apikey_url (api_version a)) h ?ss initial
                       = (Completed, st)"
    | (oauth) h cid csec tok st0 where "get_token w cid csec initial = (Inr tok, st0)"
        "run_progress a w OAuth2Mode (oauth_url (oauth_base a)) h ?ss st0 = (Completed, st)"
    by (auto simp: main_progress_def Let_def split: if_splits sum.splits prod.splits)
  then show ?thesis
  proof cases
    case key
    from run[OF key] ne show ?thesis by blast
  next
    case oauth
    from run[OF oauth(2)] oauth(1) ne show ?thesis by blast
  qed
qed

section \<open>Events of a run\<close>

lemma lookup_event_loop_event: "lookup_event url hdrs e \<Longrightarrow> loop_event hdrs e"
  by (cases e) simp_all

lemma lookup_events_loop_events:
  "list_all (lookup_event url hdrs) evs \<Longrightarrow> list_all (loop_event hdrs) evs"
  by (induction evs) (auto dest: lookup_event_loop_event)

lemma checkpoint_step_events:
  "checkpoint_step a ckpt tot i st = Inr st' \<Longrightarrow>
     \<exists>evs. trace st' = trace st @ evs \<and> list_all (loop_event h) evs \<and> tokens st' = tokens st"
  by (auto simp: checkpoint_step_def and_then_Inr write_checkpoint_csv_def split: if_splits)

lemma after_lookup_events:
  assumes "after_lookup a w ckpt tot i s le st = (res, st')"
  shows "\<exists>evs. trace st' = trace st @ evs \<and> list_all (loop_event h) evs \<and> tokens st' = tokens st"
proof -
  define st1 where "st1 = (case le of None \<Rightarrow> st
      | Some e \<Rightarrow> st\<lparr>rows := rows st @ [failure_row s (exn_str w e)], ko := ko st + 1\<rparr>)"
  define st2 where "st2 = (if verbose a then emit (Log (Verbose i tot s le)) st1 else st1)"
  define st3 where "st3 = (if int i mod every a = 0
      then emit (Log (Progress i tot (ok st2) (ko st2))) st2 else st2)"
  have t1: "trace st1 = trace st" "tokens st1 = tokens st"
    by (simp_all add: st1_def split: option.splits)
  have "\<exists>p. trace st2 = trace st1 @ p \<and> list_all (loop_event h) p \<and> tokens st2 = tokens st1"
    by (simp add: st2_def)
  with t1 obtain p2 where p2: "trace st2 = trace st @ p2" "list_all (loop_event h) p2"
    "tokens st2 = tokens st" by auto
  have "\<exists>p. trace st3 = trace st2 @ p \<and> list_all (loop_event h) p \<and> tokens st3 = tokens st2"
    by (simp add: st3_def)
  with p2 obtain p3 where p3: "trace st3 = trace st @ p3" "list_all (loop_event h) p3"
    "tokens st3 = tokens st" by auto
  from assms have
    "(res = Some ZeroDivisionError \<and> st' = st2) \<or>
     (\<exists>e. checkpoint_step a ckpt tot i st3 = Inl e \<and> st' = st3) \<or>
     (\<exists>st4. checkpoint_step a ckpt tot i st3 = Inr st4 \<and>
        (st' = st4 \<or> py_sleep (sleep a) st4 = Inr st'))"
    unfolding after_lookup_def Let_def st1_def[symmetric] st2_def[symmetric] st3_def[symmetric]
    by (auto split: if_splits sum.splits)
  then show ?thesis
  proof (elim disjE exE conjE)
    assume "st' = st2"
    with p2 show ?thesis by blast
  next
    fix e assume "st' = st3"
    with p3 show ?thesis by blast
  next
    fix st4 assume c: "checkpoint_step a ckpt tot i st3 = Inr st4" and "st' = st4"
    from checkpoint_step_events[OF c, of h] obtain p4 where
      "trace st4 = trace st3 @ p4" "list_all (loop_event h) p4" "tokens st4 = tokens st3" by blast
    with p3 \<open>st' = st4\<close> have "trace st' = trace st @ (p3 @ p4)" "list_all (loop_event h) (p3 @ p4)"
      "tokens st' = tokens st" by simp_all
    then show ?thesis by blast
  next
    fix st4 assume c: "checkpoint_step a ckpt tot i st3 = Inr st4"
      and sl: "py_sleep (sleep a) st4 = Inr st'"
    from checkpoint_step_events[OF c, of h] obtain p4 where
      "trace st4 = trace st3 @ p4" "list_all (loop_event h) p4" "tokens st4 = tokens st3" by blast
    with p3 py_sleep_cases[OF sl]
    have "trace st' = trace st @ (p3 @ p4 @ [Sleep (sleep a)])"
      "list_all (loop_event h) (p3 @ p4 @ [Sleep (sleep a)])" "tokens st' = tokens st" by simp_all
    then show ?thesis by blast
  qed
qed

lemma siret_loop_events:
  "siret_loop a w b h ckpt tot i ss st = (res, st') \<Longrightarrow>
     \<exists>evs. trace st' = trace st @ evs \<and> list_all (loop_event h) evs \<and> tokens st' = tokens st"
proof (induction ss arbitrary: i st)
  case Nil
  then show ?case by simp
next
  case (Cons s ss)
  obtain r1 st1 where rl: "retry_loop a w (b s) h 0 None st = (r1, st1)"
    by (cases "retry_loop a w (b s) h 0 None st")
  from retry_loop_trace[OF rl] obtain e1 where
    e1: "trace st1 = trace st @ e1" "list_all (loop_event h) e1" "tokens st1 = tokens st"
    by (auto dest: lookup_events_loop_events)
  show ?case
  proof (cases r1)
    case (Inl e)
    with Cons.prems rl have "st' = st1" by simp
    with e1 show ?thesis by blast
  next
    case (Inr le)
    obtain r2 st2 where al: "after_lookup a w ckpt tot i s le st1 = (r2, st2)"
      by (cases "after_lookup a w ckpt tot i s le st1")
    from after_lookup_events[OF al, of h] obtain e2 where
      e2: "trace st2 = trace st1 @ e2" "list_all (loop_event h) e2" "tokens st2 = tokens st1"
      by blast
    show ?thesis
    proof (cases r2)
      case (Some e)
      with Cons.prems rl Inr al have "st' = st2" by simp
      with e1 e2 have "trace st' = trace st @ (e1 @ e2)" "list_all (loop_event h) (e1 @ e2)"
        "tokens st' = tokens st" by simp_all
      then show ?thesis by blast
    next
      case None
      with Cons.prems rl Inr al
      have "siret_loop a w b h ckpt tot (i + 1) ss st2 = (res, st')" by simp
      from Cons.IH[OF this] obtain e3 where
        "trace st' = trace st2 @ e3" "list_all (loop_event h) e3" "tokens st' = tokens st2"
        by blast
      with e1 e2 have "trace st' = trace st @ (e1 @ e2 @ e3)"
        "list_all (loop_event h) (e1 @ e2 @ e3)" "tokens st' = tokens st" by simp_all
      then show ?thesis by blast
    qed
  qed
qed

lemma run_progress_events:
  assumes "run_progress a w m b h ss st = (res, st')"
  shows "\<exists>evs. trace st' = trace st @ Log (ModeLine m (length ss)) # evs \<and>
               list_all (loop_event h) evs \<and> tokens st' = tokens st"
proof -
  let ?st1 = "emit (Log (ModeLine m (length ss))) st"
  show ?thesis
  proof (cases "with_suffix (output_file a) ''.checkpoint.csv''")
    case (Inl e)
    with assms have "st' = ?st1" by (simp add: run_progress_def Let_def)
    then have "trace st' = trace st @ Log (ModeLine m (length ss)) # []"
      "list_all (loop_event h) []" "tokens st' = tokens st" by simp_all
    then show ?thesis by blast
  next
    case (Inr ckpt)
    obtain r2 st2 where sl: "siret_loop a w b h ckpt (length ss) 1 ss ?st1 = (r2, st2)"
      by (cases "siret_loop a w b h ckpt (length ss) 1 ss ?st1")
    from siret_loop_events[OF sl] obtain evs where
      evs: "trace st2 = trace ?st1 @ evs" "list_all (loop_event h) evs" "tokens st2 = tokens ?st1"
      by blast
    show ?thesis
    proof (cases r2)
      case (Some e)
      with assms Inr sl have "st' = st2" by (simp add: run_progress_def Let_def)
      with evs have "trace st' = trace st @ Log (ModeLine m (length ss)) # evs"
        "tokens st' = tokens st" by simp_all
      with evs(2) show ?thesis by blast
    next
      case None
      let ?tail = "[WriteExcel (output_file a) (rows st2),
                    Log (Summary (length ss) (ok st2) (ko st2) (output_file a) ckpt)]"
      from None assms Inr sl
      have "st' = emit (Log (Summary (length ss) (ok st2) (ko st2) (output_file a) ckpt))
                   (emit (WriteExcel (output_file a) (rows st2)) st2)"
        by (simp add: run_progress_def Let_def)
      with evs have "trace st' = trace st @ Log (ModeLine m (length ss)) # (evs @ ?tail)"
        "list_all (loop_event h) (evs @ ?tail)" "tokens st' = tokens st" by simp_all
      then show ?thesis by blast
    qed
  qed
qed

section \<open>The example run\<close>

lemma example_rows:
  "rows (snd (main_progress example_args example_world)) =
     [[(''siret'', JStr ''12345678901234''), (''siren'', JStr ''123456789''),
       (''denomination'', JStr ''ACME''), (''etat_etablissement'', JNull),
       (''date_creation'', JNull), (''tranche_effectifs'', JNull), (''naf'', JNull),
       (''libelle_naf'', JStr []), (''adresse_ligne_1'', JNull), (''code_postal'', JNull),
       (''commune'', JNull)],
      [(''siret'', JStr ''98765432109876''), (''erreur'', JStr [])]]"
  by code_simp

section \<open>Key sets of the records\<close>

lemma classified_erreur:
  "classified r \<Longrightarrow>
      (''erreur'' \<in> set (map fst r) \<longrightarrow> map fst r = failure_keys) \<and>
      (''erreur'' \<notin> set (map fst r) \<longrightarrow> map fst r = success_keys)"
  unfolding classified_def
proof (elim disjE)
  assume s: "map fst r = success_keys"
  have "''erreur'' \<notin> set success_keys" by (simp add: success_keys_def)
  with s show ?thesis by simp
next
  assume f: "map fst r = failure_keys"
  have "''erreur'' \<in> set failure_keys" by (simp add: failure_keys_def)
  with f show ?thesis by simp
qed

text \<open>
  C10. Every record that the progress variant appends to \<^verbatim>\<open>rows\<close> has one of two key
  sets: a successful extraction has exactly the eleven keys siret, siren, denomination,
  etat_etablissement, date_creation, tranche_effectifs, naf, libelle_naf,
  adresse_ligne_1, code_postal, commune and no key erreur; a failure record has exactly
  the keys siret and erreur. So a record of the result list is a failure record exactly
  when it has the key erreur. This holds for every run, however it ends.
\<close>

theorem rows_have_one_of_two_key_sets:
  "(\<forall>r \<in> set (rows (snd (main_progress a w))).
      (''erreur'' \<in> set (map fst r) \<longrightarrow> map fst r = failure_keys) \<and>
      (''erreur'' \<notin> set (map fst r) \<longrightarrow> map fst r = success_keys)) \<and>
   (\<forall>payload r. extract_fields (py_repr w) payload = Inr r \<longrightarrow>
      map fst r = success_keys \<and> ''erreur'' \<notin> set (map fst r)) \<and>
   map fst (failure_row s msg) = failure_keys \<and>
   length success_keys = 11 \<and> distinct success_keys \<and>
   failure_keys = [''siret'', ''erreur'']"
proof -
  obtain res st where run: "main_progress a w = (res, st)"
    by (cases "main_progress a w")
  from main_progress_rows[OF run] have "list_all classified (rows st)" by simp
  then have rows_ok: "\<forall>r \<in> set (rows st).
      (''erreur'' \<in> set (map fst r) \<longrightarrow> map fst r = failure_keys) \<and>
      (''erreur'' \<notin> set (map fst r) \<longrightarrow> map fst r = success_keys)"
    using classified_erreur unfolding list_all_iff by blast
  have notin: "''erreur'' \<notin> set success_keys" by (simp add: success_keys_def)
  have extract_ok: "\<forall>payload r. extract_fields (py_repr w) payload = Inr r \<longrightarrow>
      map fst r = success_keys \<and> ''erreur'' \<notin> set (map fst r)"
  proof (intro allI impI)
    fix payload r assume "extract_fields (py_repr w) payload = Inr r"
    then have "map fst r = success_keys" by (rule extract_fields_keys)
    with notin show "map fst r = success_keys \<and> ''erreur'' \<notin> set (map fst r)" by simp
  qed
  have fail_ok: "map fst (failure_row s msg) = failure_keys"
    by (simp add: failure_row_def failure_keys_def)
  have len: "length success_keys = 11" by (simp add: success_keys_def)
  have dist: "distinct success_keys" by (simp add: success_keys_def)
  have fk: "failure_keys = [''siret'', ''erreur'']" by (simp add: failure_keys_def)
  from rows_ok run have "\<forall>r \<in> set (rows (snd (main_progress a w))).
      (''erreur'' \<in> set (map fst r) \<longrightarrow> map fst r = failure_keys) \<and>
      (''erreur'' \<notin> set (map fst r) \<longrightarrow> map fst r = success_keys)" by simp
  with extract_ok fail_ok len dist fk show ?thesis by blast
qed

theorem rows_have_one_of_two_key_sets_witness:
  "map fst (rows (snd (main_progress example_args example_world)) ! 0) = success_keys \<and>
   map fst (rows (snd (main_progress example_args example_world)) ! 1) = failure_keys"
proof -
  let ?rs = "rows (snd (main_progress example_args example_world))"
  from rows_have_one_of_two_key_sets [of example_args example_world]
  have every: "\<forall>r \<in> set ?rs.
      (''erreur'' \<in> set (map fst r) \<longrightarrow> map fst r = failure_keys) \<and>
      (''erreur'' \<notin> set (map fst r) \<longrightarrow> map fst r = success_keys)"
    by (rule conjunct1)
  have m0: "?rs ! 0 \<in> set ?rs" and m1: "?rs ! 1 \<in> set ?rs"
    unfolding example_rows by simp_all
  have e0: "''erreur'' \<notin> set (map fst (?rs ! 0))"
    unfolding example_rows by simp
  have e1: "''erreur'' \<in> set (map fst (?rs ! 1))"
    unfolding example_rows by simp
  from every m0 e0 have "map fst (?rs ! 0) = success_keys" by blast
  moreover from every m1 e1 have "map fst (?rs ! 1) = failure_keys" by blast
  ultimately show ?thesis by (rule conjI)
qed

section \<open>The identifier loader\<close>

lemma unique_from_positions:
  "unique_from seen xs =
     map (\<lambda>i. xs ! i) (filter (\<lambda>i. xs ! i \<notin> set seen \<union> set (take i xs)) [0..<length xs])"
proof (induction xs arbitrary: seen)
  case Nil
  show ?case by simp
next
  case (Cons x xs)
  have upt: "[0..<length (x # xs)] = 0 # map Suc [0..<length xs]"
    by (simp add: upt_conv_Cons map_Suc_upt del: upt_Suc)
  have tail: "\<And>S. map (\<lambda>i. (x # xs) ! i)
                  (filter (\<lambda>i. (x # xs) ! i \<notin> S \<union> set (take i (x # xs))) (map Suc [0..<length xs]))
                = map (\<lambda>i. xs ! i)
                    (filter (\<lambda>i. xs ! i \<notin> insert x S \<union> set (take i xs)) [0..<length xs])"
    by (simp add: filter_map o_def conj_ac)
  show ?case
  proof (cases "x \<in> set seen")
    case True
    then have "insert x (set seen) = set seen" by auto
    with True Cons.IH[of seen] tail[of "set seen"] show ?thesis
      unfolding upt by simp
  next
    case False
    with Cons.IH[of "x # seen"] tail[of "set seen"] show ?thesis
      unfolding upt by simp
  qed
qed

lemma unique_first_occurrences: "unique xs = first_occurrences xs"
  by (simp add: unique_def first_occurrences_def unique_from_positions)

lemma unique_from_distinct:
  "distinct (unique_from seen xs) \<and> set (unique_from seen xs) = set xs - set seen"
  by (induction xs arbitrary: seen) auto

lemma unique_distinct: "distinct (unique xs)"
  by (simp add: unique_def unique_from_distinct)

lemma unique_set: "set (unique xs) = set xs"
  by (simp add: unique_def unique_from_distinct)

lemma dedup_world_gets: "gets (snd (main_progress example_args dedup_world)) = 1"
  by code_simp

text \<open>
  C3. The loader takes every cell of the siret column as text, removes every character
  that is not a digit, removes duplicates keeping the first occurrence in input order,
  and keeps only the values of length 14: the list of identifiers is the list of first
  occurrences of the stripped cells, filtered by length. It has no duplicates and holds
  only texts of fourteen digits. An identifier that appears twice verbatim and once with
  interior spaces is loaded once, and the run issues a single request for it.
\<close>

theorem loader_strips_dedups_and_filters:
  "load_sirets cells =
     filter (\<lambda>s. length s = 14)
       (first_occurrences (map (\<lambda>c. filter is_digit (astype_str c)) cells)) \<and>
   distinct (load_sirets cells) \<and>
   list_all (\<lambda>s. length s = 14 \<and> list_all is_digit s) (load_sirets cells) \<and>
   load_sirets [Some ''12345678901234'', Some ''12345678901234'', Some ''1234 5678 901234'']
     = [''12345678901234''] \<and>
   gets (snd (main_progress example_args dedup_world)) = 1"
proof -
  have norm: "map normalize cells = map (\<lambda>c. filter is_digit (astype_str c)) cells"
    by (simp add: normalize_def)
  have eq: "load_sirets cells =
     filter (\<lambda>s. length s = 14)
       (first_occurrences (map (\<lambda>c. filter is_digit (astype_str c)) cells))"
    by (simp add: load_sirets_def normalized_column_def unique_first_occurrences norm)
  have dist: "distinct (load_sirets cells)"
    by (simp add: load_sirets_def normalized_column_def unique_distinct)
  have digits: "list_all (\<lambda>s. length s = 14 \<and> list_all is_digit s) (load_sirets cells)"
    by (auto simp: load_sirets_def normalized_column_def unique_set list_all_iff normalize_def)
  have ex: "load_sirets [Some ''12345678901234'', Some ''12345678901234'', Some ''1234 5678 901234'']
     = [''12345678901234'']"
    by code_simp
  from eq dist digits ex dedup_world_gets show ?thesis by blast
qed

theorem loader_strips_dedups_and_filters_witness:
  "load_sirets (siret_column example_world) = [''12345678901234'', ''98765432109876''] \<and>
   distinct (load_sirets (siret_column example_world)) \<and>
   list_all (\<lambda>s. length s = 14 \<and> list_all is_digit s) (load_sirets (siret_column example_world))"
proof -
  have v: "load_sirets (siret_column example_world) = [''12345678901234'', ''98765432109876'']"
    by code_simp
  from loader_strips_dedups_and_filters[of "siret_column example_world"]
  have "distinct (load_sirets (siret_column example_world))"
    "list_all (\<lambda>s. length s = 14 \<and> list_all is_digit s) (load_sirets (siret_column example_world))"
    by blast+
  with v show ?thesis by blast
qed

section \<open>Retry after HTTP 429\<close>

lemma gets_emit [simp]: "gets (emit e st) = gets st"
  by (simp add: emit_def)








section \<open>Checkpoints\<close>

lemma csv_table_write:
  "write_checkpoint_csv rs path (fieldnames_of rs) =
     Inr (WriteCheckpoint path (fieldnames_of rs) (csv_table (fieldnames_of rs) rs))"
  by (simp add: write_checkpoint_csv_ok csv_table_def)

lemma fieldnames_union: "set (fieldnames_of rs) = (\<Union>r \<in> set rs. fst ` set r)"
  by (auto simp: fieldnames_of_def)

lemma checkpoint_step_due:
  "0 < checkpoint_rows a \<Longrightarrow> int i mod checkpoint_rows a = 0 \<or> i = tot \<Longrightarrow>
     checkpoint_step a ckpt tot i st =
       Inr (st\<lparr>trace := trace st @
               [WriteCheckpoint ckpt (fieldnames_of (rows st)) (csv_table (fieldnames_of (rows st)) (rows st)),
                Log (CheckpointWritten ckpt (length (rows st)))]\<rparr>)"
  by (simp add: checkpoint_step_def csv_table_write and_then_def emit_def)

lemma checkpoint_step_not_due:
  "\<not> (0 < checkpoint_rows a \<and> (int i mod checkpoint_rows a = 0 \<or> i = tot)) \<Longrightarrow>
     checkpoint_step a ckpt tot i st = Inr st"
  by (auto simp: checkpoint_step_def)

lemma after_lookup_checkpoint:
  assumes run: "after_lookup a w ckpt tot i s le st = (None, st')"
  shows "(0 < checkpoint_rows a \<and> (int i mod checkpoint_rows a = 0 \<or> i = tot) \<longrightarrow>
            (\<exists>pre. trace st' = trace st @ pre @
               [WriteCheckpoint ckpt (fieldnames_of (rows st'))
                  (csv_table (fieldnames_of (rows st')) (rows st')),
                Log (CheckpointWritten ckpt (length (rows st'))), Sleep (sleep a)] \<and>
               filter is_checkpoint pre = [])) \<and>
         (\<not> (0 < checkpoint_rows a \<and> (int i mod checkpoint_rows a = 0 \<or> i = tot)) \<longrightarrow>
            filter is_checkpoint (trace st') = filter is_checkpoint (trace st))"
proof -
  define st1 where "st1 = (case le of None \<Rightarrow> st
      | Some e \<Rightarrow> st\<lparr>rows := rows st @ [failure_row s (exn_str w e)], ko := ko st + 1\<rparr>)"
  define st2 where "st2 = (if verbose a then emit (Log (Verbose i tot s le)) st1 else st1)"
  define st3 where "st3 = (if int i mod every a = 0
      then emit (Log (Progress i tot (ok st2) (ko st2))) st2 else st2)"
  have t1: "trace st1 = trace st" by (simp add: st1_def split: option.splits)
  obtain pre where pre: "trace st3 = trace st @ pre" "filter is_checkpoint pre = []"
  proof -
    have "\<exists>p2. trace st2 = trace st1 @ p2 \<and> filter is_checkpoint p2 = []"
      by (simp add: st2_def)
    moreover have "\<exists>p3. trace st3 = trace st2 @ p3 \<and> filter is_checkpoint p3 = []"
      by (simp add: st3_def)
    ultimately obtain p2 p3 where "trace st3 = trace st @ (p2 @ p3)"
      "filter is_checkpoint (p2 @ p3) = []" using t1 by auto
    then show ?thesis using that by blast
  qed
  have r3: "rows st3 = rows st1" by (simp add: st3_def st2_def)
  from run have ev: "every a \<noteq> 0"
    by (auto simp: after_lookup_def Let_def)
  from run ev obtain st4 where
    c4: "checkpoint_step a ckpt tot i st3 = Inr st4" and
    s5: "py_sleep (sleep a) st4 = Inr st'"
    unfolding after_lookup_def Let_def st1_def[symmetric] st2_def[symmetric] st3_def[symmetric]
    by (auto split: sum.splits)
  from s5 have t5: "trace st' = trace st4 @ [Sleep (sleep a)]" and r5: "rows st' = rows st4"
    by (auto simp: py_sleep_def split: if_splits)
  show ?thesis
  proof (cases "0 < checkpoint_rows a \<and> (int i mod checkpoint_rows a = 0 \<or> i = tot)")
    case True
    with checkpoint_step_due[of a i tot ckpt st3] c4
    have st4: "st4 = st3\<lparr>trace := trace st3 @
               [WriteCheckpoint ckpt (fieldnames_of (rows st3)) (csv_table (fieldnames_of (rows st3)) (rows st3)),
                Log (CheckpointWritten ckpt (length (rows st3)))]\<rparr>" by simp
    then have "rows st4 = rows st3" by simp
    with r5 have rr: "rows st3 = rows st'" by simp
    from st4 t5 pre(1) rr have "trace st' = trace st @ pre @
               [WriteCheckpoint ckpt (fieldnames_of (rows st'))
                  (csv_table (fieldnames_of (rows st')) (rows st')),
                Log (CheckpointWritten ckpt (length (rows st'))), Sleep (sleep a)]"
      by simp
    with pre(2) True show ?thesis by blast
  next
    case False
    from checkpoint_step_not_due[OF False, of ckpt st3] c4 have "st4 = st3" by simp
    with t5 pre have "filter is_checkpoint (trace st') = filter is_checkpoint (trace st)"
      by simp
    with False show ?thesis by blast
  qed
qed

lemma goes_to_filter:
  "list_all (checkpoint_goes_to p) xs = list_all (checkpoint_goes_to p) (filter is_checkpoint xs)"
proof (induction xs)
  case Nil
  show ?case by simp
next
  case (Cons e xs)
  then show ?case by (cases e) simp_all
qed

lemma siret_loop_checkpoints:
  "siret_loop a w b h ckpt tot i ss st = (None, st') \<Longrightarrow>
   list_all (checkpoint_goes_to ckpt) (trace st) \<Longrightarrow>
     list_all (checkpoint_goes_to ckpt) (trace st') \<and>
     (checkpoint_rows a \<le> 0 \<longrightarrow>
        filter is_checkpoint (trace st') = filter is_checkpoint (trace st)) \<and>
     (0 < checkpoint_rows a \<and> ss \<noteq> [] \<and> i + length ss = tot + 1 \<longrightarrow>
        WriteCheckpoint ckpt (fieldnames_of (rows st'))
          (csv_table (fieldnames_of (rows st')) (rows st')) \<in> set (trace st'))"
proof (induction ss arbitrary: i st)
  case Nil
  then show ?case by simp
next
  case (Cons s ss)
  obtain r1 st1 where rl: "retry_loop a w (b s) h 0 None st = (r1, st1)"
    by (cases "retry_loop a w (b s) h 0 None st")
  with Cons.prems(1) obtain le where r1: "r1 = Inr le" by (cases r1) auto
  obtain r2 st2 where al: "after_lookup a w ckpt tot i s le st1 = (r2, st2)"
    by (cases "after_lookup a w ckpt tot i s le st1")
  with Cons.prems(1) rl r1 have r2: "r2 = None" by (cases r2) auto
  from Cons.prems(1) rl r1 al r2
  have rest: "siret_loop a w b h ckpt tot (i + 1) ss st2 = (None, st')" by simp
  from retry_loop_trace[OF rl] obtain evs where
    evs: "trace st1 = trace st @ evs" "list_all (lookup_event (b s) h) evs" by blast
  then have f1: "filter is_checkpoint (trace st1) = filter is_checkpoint (trace st)"
    by (simp add: lookup_events_no_checkpoint)
  note ac = after_lookup_checkpoint[OF al[unfolded r2]]
  let ?due = "0 < checkpoint_rows a \<and> (int i mod checkpoint_rows a = 0 \<or> i = tot)"
  let ?wc = "\<lambda>x. WriteCheckpoint ckpt (fieldnames_of (rows x)) (csv_table (fieldnames_of (rows x)) (rows x))"
  have f2: "filter is_checkpoint (trace st2) =
              filter is_checkpoint (trace st) @ (if ?due then [?wc st2] else [])"
  proof (cases ?due)
    case True
    with ac obtain pre where "trace st2 = trace st1 @ pre @
        [?wc st2, Log (CheckpointWritten ckpt (length (rows st2))), Sleep (sleep a)]"
        "filter is_checkpoint pre = []" by blast
    with f1 True show ?thesis by simp
  next
    case False
    with ac have "filter is_checkpoint (trace st2) = filter is_checkpoint (trace st1)" by blast
    with f1 False show ?thesis by simp
  qed
  from Cons.prems(2) have "list_all (checkpoint_goes_to ckpt) (filter is_checkpoint (trace st))"
    using goes_to_filter by blast
  with f2 have "list_all (checkpoint_goes_to ckpt) (filter is_checkpoint (trace st2))"
    by simp
  then have g2: "list_all (checkpoint_goes_to ckpt) (trace st2)"
    using goes_to_filter by blast
  note IH = Cons.IH[OF rest g2]
  have c1: "list_all (checkpoint_goes_to ckpt) (trace st')" using IH by blast
  have c2: "checkpoint_rows a \<le> 0 \<longrightarrow>
        filter is_checkpoint (trace st') = filter is_checkpoint (trace st)"
  proof
    assume le0: "checkpoint_rows a \<le> 0"
    with IH have "filter is_checkpoint (trace st') = filter is_checkpoint (trace st2)" by blast
    moreover from le0 f2 have "filter is_checkpoint (trace st2) = filter is_checkpoint (trace st)"
      by simp
    ultimately show "filter is_checkpoint (trace st') = filter is_checkpoint (trace st)" by simp
  qed
  have c3: "0 < checkpoint_rows a \<and> s # ss \<noteq> [] \<and> i + length (s # ss) = tot + 1 \<longrightarrow>
        ?wc st' \<in> set (trace st')"
  proof
    assume h: "0 < checkpoint_rows a \<and> s # ss \<noteq> [] \<and> i + length (s # ss) = tot + 1"
    show "?wc st' \<in> set (trace st')"
    proof (cases ss)
      case Nil
      with h have due: ?due by simp
      from Nil rest have "st' = st2" by simp
      moreover from f2 due have "?wc st2 \<in> set (filter is_checkpoint (trace st2))" by simp
      ultimately show ?thesis by simp
    next
      case (Cons s' ss')
      with h IH show ?thesis by simp
    qed
  qed
  from c1 c2 c3 show ?case by blast
qed

lemma get_token_trace:
  "get_token w cid csec st = (res, st') \<Longrightarrow>
     trace st' = trace st @ [TokenRequest cid csec] \<and> rows st' = rows st \<and>
     gets st' = gets st \<and> tokens st' = tokens st + 1"
  by (auto simp: get_token_def emit_def)

lemma example_completed: "fst (main_progress example_args example_world) = Completed"
  by code_simp

lemma default_checkpoint_path:
  "with_suffix ''./enrichi_insee.xlsx'' ''.checkpoint.csv'' = Inr ''enrichi_insee.checkpoint.csv''"
  by code_simp

lemma completed_run_checkpoints:
  assumes "main_progress a w = (Completed, st)"
  shows "\<exists>ckpt. with_suffix (output_file a) ''.checkpoint.csv'' = Inr ckpt \<and>
           list_all (checkpoint_goes_to ckpt) (trace st) \<and>
           (checkpoint_rows a \<le> 0 \<longrightarrow> filter is_checkpoint (trace st) = []) \<and>
           (0 < checkpoint_rows a \<longrightarrow>
              WriteCheckpoint ckpt (fieldnames_of (rows st))
                (csv_table (fieldnames_of (rows st)) (rows st)) \<in> set (trace st))"
proof -
  let ?ss = "load_sirets (siret_column w)"
  from main_progress_Completed[OF assms] obtain m b h st0 ckpt st2 where
    ne: "?ss \<noteq> []" and
    ck: "with_suffix (output_file a) ''.checkpoint.csv'' = Inr ckpt" and
    st0: "st0 = initial \<or> (\<exists>cid csec tok. get_token w cid csec initial = (Inr tok, st0))" and
    loop: "siret_loop a w b h ckpt (length ?ss) 1 ?ss (emit (Log (ModeLine m (length ?ss))) st0)
             = (None, st2)" and
    st: "st = emit (Log (Summary (length ?ss) (ok st2) (ko st2) (output_file a) ckpt))
                  (emit (WriteExcel (output_file a) (rows st2)) st2)"
    by blast
  from st0 have t0: "filter is_checkpoint (trace st0) = []"
    by (auto simp: initial_def dest!: get_token_trace)
  let ?st1 = "emit (Log (ModeLine m (length ?ss))) st0"
  from t0 have t1: "filter is_checkpoint (trace ?st1) = []" by simp
  then have g1: "list_all (checkpoint_goes_to ckpt) (trace ?st1)"
    using goes_to_filter[of ckpt "trace ?st1"] by simp
  note sl = siret_loop_checkpoints[OF loop g1]
  from st have tr: "trace st = trace st2 @ [WriteExcel (output_file a) (rows st2),
      Log (Summary (length ?ss) (ok st2) (ko st2) (output_file a) ckpt)]"
    and rw: "rows st = rows st2" by simp_all
  from sl tr have c1: "list_all (checkpoint_goes_to ckpt) (trace st)" by simp
  have c2: "checkpoint_rows a \<le> 0 \<longrightarrow> filter is_checkpoint (trace st) = []"
  proof
    assume "checkpoint_rows a \<le> 0"
    with sl t1 have "filter is_checkpoint (trace st2) = []" by simp
    with tr show "filter is_checkpoint (trace st) = []" by simp
  qed
  have c3: "0 < checkpoint_rows a \<longrightarrow>
              WriteCheckpoint ckpt (fieldnames_of (rows st))
                (csv_table (fieldnames_of (rows st)) (rows st)) \<in> set (trace st)"
  proof
    assume "0 < checkpoint_rows a"
    moreover from ne have "1 + length ?ss = length ?ss + 1" by simp
    ultimately have "WriteCheckpoint ckpt (fieldnames_of (rows st2))
        (csv_table (fieldnames_of (rows st2)) (rows st2)) \<in> set (trace st2)"
      using sl ne by blast
    with tr rw show "WriteCheckpoint ckpt (fieldnames_of (rows st))
        (csv_table (fieldnames_of (rows st)) (rows st)) \<in> set (trace st)" by simp
  qed
  from ck c1 c2 c3 show ?thesis by blast
qed

text \<open>
  C9, as the claim states it, fails when the checkpoint interval is 0: the run below
  completes, processes its two identifiers, and never writes the checkpoint file, not
  even at the final identifier.
\<close>

theorem checkpoint_disabled_counterexample:
  "fst (main_progress no_checkpoint_args example_world) = Completed \<and>
   length (rows (snd (main_progress no_checkpoint_args example_world))) = 2 \<and>
   filter is_checkpoint (trace (snd (main_progress no_checkpoint_args example_world))) = []"
  by code_simp

text \<open>
  C9, amended. When the checkpoint interval M is positive: after identifier number i,
  if M divides i or i is the last identifier, the checkpoint file is written with all
  records accumulated so far (the record of identifier i included), and otherwise no
  checkpoint is written after that identifier; the columns are the union of the keys of
  those records and a record without a column gets the empty text there; in a completed
  run every checkpoint goes to the output path with its suffix replaced by
  \<^verbatim>\<open>.checkpoint.csv\<close>, and the last one holds the whole result list. When M is not
  positive, a completed run writes no checkpoint at all.
\<close>

theorem checkpoint_written_when_due:
  "(main_progress a w = (Completed, st) \<and> 0 < checkpoint_rows a \<longrightarrow>
      (\<exists>ckpt. with_suffix (output_file a) ''.checkpoint.csv'' = Inr ckpt \<and>
         list_all (checkpoint_goes_to ckpt) (trace st) \<and>
         WriteCheckpoint ckpt (fieldnames_of (rows st))
           (csv_table (fieldnames_of (rows st)) (rows st)) \<in> set (trace st))) \<and>
   (main_progress a w = (Completed, st) \<and> checkpoint_rows a \<le> 0 \<longrightarrow>
      filter is_checkpoint (trace st) = []) \<and>
   (after_lookup a w path tot i s le st1 = (None, st2) \<and>
    0 < checkpoint_rows a \<and> (int i mod checkpoint_rows a = 0 \<or> i = tot) \<longrightarrow>
      (\<exists>pre. trace st2 = trace st1 @ pre @
         [WriteCheckpoint path (fieldnames_of (rows st2))
            (csv_table (fieldnames_of (rows st2)) (rows st2)),
          Log (CheckpointWritten path (length (rows st2))), Sleep (sleep a)] \<and>
         filter is_checkpoint pre = [])) \<and>
   (after_lookup a w path tot i s le st1 = (None, st2) \<and>
    \<not> (0 < checkpoint_rows a \<and> (int i mod checkpoint_rows a = 0 \<or> i = tot)) \<longrightarrow>
      filter is_checkpoint (trace st2) = filter is_checkpoint (trace st1)) \<and>
   set (fieldnames_of rs) = (\<Union>r \<in> set rs. fst ` set r) \<and>
   csv_table columns rs =
     map (\<lambda>r. map (\<lambda>k. case map_of r k of None \<Rightarrow> JStr [] | Some v \<Rightarrow> v) columns) rs \<and>
   with_suffix ''./enrichi_insee.xlsx'' ''.checkpoint.csv'' = Inr ''enrichi_insee.checkpoint.csv''"
proof (intro conjI impI)
  assume h: "main_progress a w = (Completed, st) \<and> 0 < checkpoint_rows a"
  with completed_run_checkpoints[of a w st]
  show "\<exists>ckpt. with_suffix (output_file a) ''.checkpoint.csv'' = Inr ckpt \<and>
         list_all (checkpoint_goes_to ckpt) (trace st) \<and>
         WriteCheckpoint ckpt (fieldnames_of (rows st))
           (csv_table (fieldnames_of (rows st)) (rows st)) \<in> set (trace st)"
    by blast
next
  assume h: "main_progress a w = (Completed, st) \<and> checkpoint_rows a \<le> 0"
  with completed_run_checkpoints[of a w st]
  show "filter is_checkpoint (trace st) = []" by blast
next
  assume h: "after_lookup a w path tot i s le st1 = (None, st2) \<and>
    0 < checkpoint_rows a \<and> (int i mod checkpoint_rows a = 0 \<or> i = tot)"
  then have al: "after_lookup a w path tot i s le st1 = (None, st2)" by simp
  from h have due: "0 < checkpoint_rows a \<and> (int i mod checkpoint_rows a = 0 \<or> i = tot)"
    by (rule conjunct2)
  from after_lookup_checkpoint[OF al]
  have "0 < checkpoint_rows a \<and> (int i mod checkpoint_rows a = 0 \<or> i = tot) \<longrightarrow>
      (\<exists>pre. trace st2 = trace st1 @ pre @
         [WriteCheckpoint path (fieldnames_of (rows st2))
            (csv_table (fieldnames_of (rows st2)) (rows st2)),
          Log (CheckpointWritten path (length (rows st2))), Sleep (sleep a)] \<and>
         filter is_checkpoint pre = [])"
    by (rule conjunct1)
  from this due
  show "\<exists>pre. trace st2 = trace st1 @ pre @
         [WriteCheckpoint path (fieldnames_of (rows st2))
            (csv_table (fieldnames_of (rows st2)) (rows st2)),
          Log (CheckpointWritten path (length (rows st2))), Sleep (sleep a)] \<and>
         filter is_checkpoint pre = []"
    by (rule mp)
next
  assume h: "after_lookup a w path tot i s le st1 = (None, st2) \<and>
    \<not> (0 < checkpoint_rows a \<and> (int i mod checkpoint_rows a = 0 \<or> i = tot))"
  then have al: "after_lookup a w path tot i s le st1 = (None, st2)" by simp
  from h have nd: "\<not> (0 < checkpoint_rows a \<and> (int i mod checkpoint_rows a = 0 \<or> i = tot))"
    by (rule conjunct2)
  from after_lookup_checkpoint[OF al]
  have "\<not> (0 < checkpoint_rows a \<and> (int i mod checkpoint_rows a = 0 \<or> i = tot)) \<longrightarrow>
      filter is_checkpoint (trace st2) = filter is_checkpoint (trace st1)"
    by (rule conjunct2)
  from this nd
  show "filter is_checkpoint (trace st2) = filter is_checkpoint (trace st1)" by (rule mp)
next
  show "set (fieldnames_of rs) = (\<Union>r \<in> set rs. fst ` set r)" by (rule fieldnames_union)
next
  show "csv_table columns rs =
     map (\<lambda>r. map (\<lambda>k. case map_of r k of None \<Rightarrow> JStr [] | Some v \<Rightarrow> v) columns) rs"
    by (simp add: csv_table_def dict_get_def)
next
  show "with_suffix ''./enrichi_insee.xlsx'' ''.checkpoint.csv'' = Inr ''enrichi_insee.checkpoint.csv''"
    by (rule default_checkpoint_path)
qed

theorem checkpoint_written_when_due_witness:
  "WriteCheckpoint ''enrichi_insee.checkpoint.csv''
     (fieldnames_of (rows (snd (main_progress example_args example_world))))
     (csv_table (fieldnames_of (rows (snd (main_progress example_args example_world))))
        (rows (snd (main_progress example_args example_world))))
     \<in> set (trace (snd (main_progress example_args example_world)))"
proof -
  let ?st = "snd (main_progress example_args example_world)"
  have run: "main_progress example_args example_world = (Completed, ?st)"
    using example_completed by (cases "main_progress example_args example_world") simp
  have pos: "0 < checkpoint_rows example_args" by (simp add: example_args_def)
  have out: "output_file example_args = ''./enrichi_insee.xlsx''" by (simp add: example_args_def)
  from checkpoint_written_when_due[of example_args example_world ?st]
  have "main_progress example_args example_world = (Completed, ?st) \<and>
          0 < checkpoint_rows example_args \<longrightarrow>
      (\<exists>ckpt. with_suffix (output_file example_args) ''.checkpoint.csv'' = Inr ckpt \<and>
         list_all (checkpoint_goes_to ckpt) (trace ?st) \<and>
         WriteCheckpoint ckpt (fieldnames_of (rows ?st))
           (csv_table (fieldnames_of (rows ?st)) (rows ?st)) \<in> set (trace ?st))"
    by (rule conjunct1)
  with run pos obtain ckpt where
    "with_suffix (output_file example_args) ''.checkpoint.csv'' = Inr ckpt"
    "WriteCheckpoint ckpt (fieldnames_of (rows ?st))
           (csv_table (fieldnames_of (rows ?st)) (rows ?st)) \<in> set (trace ?st)"
    by blast
  with out default_checkpoint_path show ?thesis by simp
qed

section \<open>No error aborts the batch\<close>














section \<open>Credential resolution\<close>

lemma or_else_resolve:
  "given (or_else (or_else c e) f) = given (resolve c e f) \<and>
   (given (resolve c e f) \<longrightarrow> or_else (or_else c e) f = resolve c e f)"
  by (simp add: or_else_def resolve_def given_def)

lemma no_credentials_key:
  "\<not> given (resolve (api_key no_credentials_args) (getenv no_valid_world ''INSEE_API_KEY'')
             (read_env_file (dotenv no_valid_world) ''INSEE_API_KEY''))"
  by code_simp

lemma no_credentials_client:
  "\<not> given (resolve (client_id no_credentials_args) (getenv no_valid_world ''INSEE_CLIENT_ID'')
             (read_env_file (dotenv no_valid_world) ''INSEE_CLIENT_ID''))"
  by code_simp

lemma no_credentials_exit:
  "main_progress no_credentials_args no_valid_world =
     (SysExit 0, initial\<lparr>trace := [Log NoValidSiret]\<rparr>)"
  by code_simp

text \<open>
  C5, as the claim states it, fails on an input without a valid identifier: no API key
  and no client id resolve from any source, and yet the run below exits with status 0,
  because the identifiers are loaded before the credentials are looked at.
\<close>

theorem missing_credentials_counterexample:
  "\<not> given (resolve (api_key no_credentials_args) (getenv no_valid_world ''INSEE_API_KEY'')
             (read_env_file (dotenv no_valid_world) ''INSEE_API_KEY'')) \<and>
   \<not> given (resolve (client_id no_credentials_args) (getenv no_valid_world ''INSEE_CLIENT_ID'')
             (read_env_file (dotenv no_valid_world) ''INSEE_CLIENT_ID'')) \<and>
   exit_status (fst (main_progress no_credentials_args no_valid_world)) = 0"
  using no_credentials_key no_credentials_client by (simp add: no_credentials_exit)

lemma dotenv_key:
  "resolve (api_key no_credentials_args) (getenv dotenv_world ''INSEE_API_KEY'')
     (read_env_file (dotenv dotenv_world) ''INSEE_API_KEY'') = Some ''abc''"
  by code_simp

lemma dotenv_has_identifiers: "load_sirets (siret_column dotenv_world) \<noteq> []"
  by code_simp

text \<open>
  C5, amended. On an input with at least one valid identifier: each credential resolves
  to the first given value among the command line, the environment variable and the
  \<^verbatim>\<open>.env\<close> file, in that order. If an API key resolves (for example from the
  \<^verbatim>\<open>.env\<close> file alone), the run operates in API-key mode: it announces that mode,
  requests no token, and every lookup carries the resolved key in its headers. Otherwise,
  if client id and client secret both resolve, the run operates in OAuth2 mode: its
  first action is the token request with the resolved pair, and once a token is returned
  it announces OAuth2 mode and every lookup carries that bearer token. If neither mode
  resolves, the run logs the message and exits with status 1 without any request. (On an
  input without a valid identifier the run has exited with status 0 before.)
\<close>

theorem credentials_resolve_in_priority_order:
  assumes "load_sirets (siret_column w) \<noteq> []"
      and "key = resolve (api_key a) (getenv w ''INSEE_API_KEY'')
                   (read_env_file (dotenv w) ''INSEE_API_KEY'')"
      and "cid = resolve (client_id a) (getenv w ''INSEE_CLIENT_ID'')
                   (read_env_file (dotenv w) ''INSEE_CLIENT_ID'')"
      and "csec = resolve (client_secret a) (getenv w ''INSEE_CLIENT_SECRET'')
                    (read_env_file (dotenv w) ''INSEE_CLIENT_SECRET'')"
      and "st = snd (main_progress a w)"
  shows "(given key \<longrightarrow>
            (\<exists>evs. trace st = Log (ModeLine (ApiKeyMode (api_version a))
                                  (length (load_sirets (siret_column w)))) # evs \<and>
                   list_all (loop_event (apikey_headers (text_of key))) evs) \<and>
            tokens st = 0) \<and>
         (\<not> given key \<and> given cid \<and> given csec \<longrightarrow>
            (\<exists>evs. trace st = TokenRequest (text_of cid) (text_of csec) # evs \<and>
               (\<forall>tok st0. get_token w (text_of cid) (text_of csec) initial = (Inr tok, st0) \<longrightarrow>
                  (\<exists>evs'. evs = Log (ModeLine OAuth2Mode (length (load_sirets (siret_column w)))) # evs' \<and>
                     list_all (loop_event (oauth_headers (py_str (py_repr w) tok))) evs'))) \<and>
            tokens st = 1) \<and>
         (\<not> given key \<and> \<not> (given cid \<and> given csec) \<longrightarrow>
            main_progress a w = (SysExit 1, initial\<lparr>trace := [Log MissingCredentials]\<rparr>) \<and>
            exit_status (fst (main_progress a w)) \<noteq> 0 \<and> gets st = 0 \<and> tokens st = 0) \<and>
         resolve (api_key no_credentials_args) (getenv dotenv_world ''INSEE_API_KEY'')
           (read_env_file (dotenv dotenv_world) ''INSEE_API_KEY'') = Some ''abc''"
proof -
  let ?ss = "load_sirets (siret_column w)"
  let ?env = "read_env_file (dotenv w)"
  let ?k = "or_else (or_else (api_key a) (getenv w ''INSEE_API_KEY'')) (?env ''INSEE_API_KEY'')"
  let ?c = "or_else (or_else (client_id a) (getenv w ''INSEE_CLIENT_ID'')) (?env ''INSEE_CLIENT_ID'')"
  let ?s = "or_else (or_else (client_secret a) (getenv w ''INSEE_CLIENT_SECRET''))
              (?env ''INSEE_CLIENT_SECRET'')"
  have gk: "given ?k = given key" and tk: "given key \<Longrightarrow> ?k = key"
    using or_else_resolve[of "api_key a" "getenv w ''INSEE_API_KEY''" "?env ''INSEE_API_KEY''"]
      assms(2) by simp_all
  have gc: "given ?c = given cid" and tc: "given cid \<Longrightarrow> ?c = cid"
    using or_else_resolve[of "client_id a" "getenv w ''INSEE_CLIENT_ID''" "?env ''INSEE_CLIENT_ID''"]
      assms(3) by simp_all
  have gs: "given ?s = given csec" and ts: "given csec \<Longrightarrow> ?s = csec"
    using or_else_resolve[of "client_secret a" "getenv w ''INSEE_CLIENT_SECRET''"
        "?env ''INSEE_CLIENT_SECRET''"] assms(4) by simp_all
  have api: "given key \<longrightarrow>
            (\<exists>evs. trace st = Log (ModeLine (ApiKeyMode (api_version a)) (length ?ss)) # evs \<and>
                   list_all (loop_event (apikey_headers (text_of key))) evs) \<and>
            tokens st = 0"
  proof
    assume g: "given key"
    obtain res st' where rp: "run_progress a w (ApiKeyMode (api_version a))
        (apikey_url (api_version a)) (apikey_headers (text_of key)) ?ss initial = (res, st')"
      by (cases "run_progress a w (ApiKeyMode (api_version a))
        (apikey_url (api_version a)) (apikey_headers (text_of key)) ?ss initial")
    from g gk tk assms(1) rp have "main_progress a w = (res, st')"
      by (simp add: main_progress_def Let_def)
    with assms(5) have "st = st'" by simp
    with run_progress_events[OF rp]
    show "(\<exists>evs. trace st = Log (ModeLine (ApiKeyMode (api_version a)) (length ?ss)) # evs \<and>
                   list_all (loop_event (apikey_headers (text_of key))) evs) \<and>
            tokens st = 0"
      by (auto simp: initial_def)
  qed
  have oauth: "\<not> given key \<and> given cid \<and> given csec \<longrightarrow>
            (\<exists>evs. trace st = TokenRequest (text_of cid) (text_of csec) # evs \<and>
               (\<forall>tok st0. get_token w (text_of cid) (text_of csec) initial = (Inr tok, st0) \<longrightarrow>
                  (\<exists>evs'. evs = Log (ModeLine OAuth2Mode (length ?ss)) # evs' \<and>
                     list_all (loop_event (oauth_headers (py_str (py_repr w) tok))) evs'))) \<and>
            tokens st = 1"
  proof
    assume h: "\<not> given key \<and> given cid \<and> given csec"
    obtain r0 st0 where gt: "get_token w (text_of cid) (text_of csec) initial = (r0, st0)"
      by (cases "get_token w (text_of cid) (text_of csec) initial")
    from get_token_trace[OF gt] have t0: "trace st0 = [TokenRequest (text_of cid) (text_of csec)]"
      "tokens st0 = 1" by (simp_all add: initial_def)
    show "(\<exists>evs. trace st = TokenRequest (text_of cid) (text_of csec) # evs \<and>
               (\<forall>tok st0. get_token w (text_of cid) (text_of csec) initial = (Inr tok, st0) \<longrightarrow>
                  (\<exists>evs'. evs = Log (ModeLine OAuth2Mode (length ?ss)) # evs' \<and>
                     list_all (loop_event (oauth_headers (py_str (py_repr w) tok))) evs'))) \<and>
            tokens st = 1"
    proof (cases r0)
      case (Inl e)
      with h gk gc gs tc ts assms(1) gt have "main_progress a w = (Uncaught e, st0)"
        by (simp add: main_progress_def Let_def)
      with assms(5) have "st = st0" by simp
      with t0 gt Inl show ?thesis by simp
    next
      case (Inr tok)
      obtain res st' where rp: "run_progress a w OAuth2Mode (oauth_url (oauth_base a))
          (oauth_headers (py_str (py_repr w) tok)) ?ss st0 = (res, st')"
        by (cases "run_progress a w OAuth2Mode (oauth_url (oauth_base a))
          (oauth_headers (py_str (py_repr w) tok)) ?ss st0")
      from h gk gc gs tc ts assms(1) gt Inr rp have "main_progress a w = (res, st')"
        by (simp add: main_progress_def Let_def)
      with assms(5) have "st = st'" by simp
      with run_progress_events[OF rp] t0 gt Inr show ?thesis by auto
    qed
  qed
  have none: "\<not> given key \<and> \<not> (given cid \<and> given csec) \<longrightarrow>
            main_progress a w = (SysExit 1, initial\<lparr>trace := [Log MissingCredentials]\<rparr>) \<and>
            exit_status (fst (main_progress a w)) \<noteq> 0 \<and> gets st = 0 \<and> tokens st = 0"
  proof
    assume h: "\<not> given key \<and> \<not> (given cid \<and> given csec)"
    with gk gc gs assms(1)
    have m: "main_progress a w = (SysExit 1, initial\<lparr>trace := [Log MissingCredentials]\<rparr>)"
      by (auto simp: main_progress_def Let_def emit_def initial_def)
    with assms(5) show "main_progress a w = (SysExit 1, initial\<lparr>trace := [Log MissingCredentials]\<rparr>) \<and>
            exit_status (fst (main_progress a w)) \<noteq> 0 \<and> gets st = 0 \<and> tokens st = 0"
      by (simp add: initial_def)
  qed
  from api oauth none dotenv_key show ?thesis by blast
qed

lemma dotenv_count: "length (load_sirets (siret_column dotenv_world)) = 2"
  by code_simp

theorem credentials_resolve_in_priority_order_witness:
  "hd (trace (snd (main_progress no_credentials_args dotenv_world))) =
     Log (ModeLine (ApiKeyMode ''3.11'') 2) \<and>
   tokens (snd (main_progress no_credentials_args dotenv_world)) = 0"
proof -
  let ?key = "resolve (api_key no_credentials_args) (getenv dotenv_world ''INSEE_API_KEY'')
                (read_env_file (dotenv dotenv_world) ''INSEE_API_KEY'')"
  let ?st = "snd (main_progress no_credentials_args dotenv_world)"
  have g: "given ?key" unfolding dotenv_key by (simp add: given_def)
  have ver: "api_version no_credentials_args = ''3.11''"
    by (simp add: no_credentials_args_def example_args_def)
  from credentials_resolve_in_priority_order[OF dotenv_has_identifiers refl refl refl refl,
        of no_credentials_args]
  have "given ?key \<longrightarrow>
            (\<exists>evs. trace ?st = Log (ModeLine (ApiKeyMode (api_version no_credentials_args))
                                  (length (load_sirets (siret_column dotenv_world)))) # evs \<and>
                   list_all (loop_event (apikey_headers (text_of ?key))) evs) \<and>
            tokens ?st = 0"
    by (rule conjunct1)
  with g obtain evs where
    "trace ?st = Log (ModeLine (ApiKeyMode (api_version no_credentials_args))
                   (length (load_sirets (siret_column dotenv_world)))) # evs"
    "tokens ?st = 0" by blast
  with ver dotenv_count show ?thesis by simp
qed

end
